theory Spec2Isabelle
  imports Complex_Main "HOL-Library.Sublist"
begin

section \<open>Facet state: the value of the \<open>field_filters\<close> parameter\<close>

text \<open>
  \<open>catalog_facets.js\<close> keeps the filter selection in one query parameter,
  \<open>field_filters\<close>, as JSON text.  The parsed value is a JavaScript object; its
  own properties are kept here in insertion order, as \<open>Object.keys\<close> lists them
  for names that are not array indices.  Numbers are whole numbers: the price sliders
  move in steps of one.
\<close>

datatype json =
    JNull
  | JBool bool
  | JNum int
  | JStr string
  | JArr "json list"
  | JObj "(string \<times> json) list"

subsection \<open>Decimal digits\<close>

definition digit_char :: "nat \<Rightarrow> char" where
  "digit_char d = char_of (of_char (CHR ''0'') + d)"

fun dec_nat :: "nat \<Rightarrow> string" where
  "dec_nat n = (if n < 10 then [digit_char n] else dec_nat (n div 10) @ [digit_char (n mod 10)])"

declare dec_nat.simps [simp del]

definition dec_int :: "int \<Rightarrow> string" where
  "dec_int i = (if i < 0 then CHR ''-'' # dec_nat (nat (- i)) else dec_nat (nat i))"

subsection \<open>\<open>String(v)\<close> on a parsed value\<close>

fun join :: "string \<Rightarrow> string list \<Rightarrow> string" where
  "join sep [] = []"
| "join sep [x] = x"
| "join sep (x # y # ys) = x @ sep @ join sep (y # ys)"

fun js_String :: "json \<Rightarrow> string"
  and js_String_elems :: "json list \<Rightarrow> string list" where
  "js_String JNull = ''null''"
| "js_String (JBool b) = (if b then ''true'' else ''false'')"
| "js_String (JNum n) = dec_int n"
| "js_String (JStr s) = s"
| "js_String (JArr xs) = join '','' (js_String_elems xs)"
| "js_String (JObj kvs) = ''[object Object]''"
| "js_String_elems [] = []"
| "js_String_elems (x # xs) =
     (case x of JNull \<Rightarrow> [] | _ \<Rightarrow> js_String x) # js_String_elems xs"

subsection \<open>Property access on the parsed object\<close>

fun obj_set :: "string \<Rightarrow> json \<Rightarrow> (string \<times> json) list \<Rightarrow> (string \<times> json) list" where
  "obj_set k v [] = [(k, v)]"
| "obj_set k v ((k', v') # kvs) =
     (if k' = k then (k, v) # kvs else (k', v') # obj_set k v kvs)"

definition obj_delete :: "string \<Rightarrow> (string \<times> json) list \<Rightarrow> (string \<times> json) list" where
  "obj_delete k kvs = filter (\<lambda>kv. fst kv \<noteq> k) kvs"

subsection \<open>\<open>applyFieldFilterChange\<close>, lines 112 to 126: toggling one value\<close>

text \<open>
  \<open>filterValue\<close> is what \<open>getAttribute\<close> returned: a string, or \<open>null\<close>
  (\<open>None\<close>), which \<open>(filterValue || "").toString()\<close> turns into the empty string.
\<close>

definition value_str :: "string option \<Rightarrow> string" where
  "value_str filterValue = (case filterValue of None \<Rightarrow> [] | Some v \<Rightarrow> v)"

definition existing_values :: "(string \<times> json) list \<Rightarrow> string \<Rightarrow> string list" where
  "existing_values fieldFilters filterName =
     (case map_of fieldFilters filterName of
        Some (JArr xs) \<Rightarrow> map js_String xs
      | _ \<Rightarrow> [])"

definition next_values :: "string list \<Rightarrow> string \<Rightarrow> bool \<Rightarrow> string list" where
  "next_values existing valueStr checked =
     (if checked
      then (if valueStr \<in> set existing then existing else existing @ [valueStr])
      else filter (\<lambda>v. v \<noteq> valueStr) existing)"

definition toggleValue ::
  "(string \<times> json) list \<Rightarrow> string \<Rightarrow> string option \<Rightarrow> bool \<Rightarrow> (string \<times> json) list" where
  "toggleValue fieldFilters filterName filterValue checked =
     (let existing = existing_values fieldFilters filterName;
          valueStr = value_str filterValue;
          nxt = next_values existing valueStr checked
      in if nxt \<noteq> []
         then obj_set filterName (JArr (map JStr nxt)) fieldFilters
         else obj_delete filterName fieldFilters)"

subsection \<open>\<open>applyPriceFilter\<close>, lines 360 to 370: writing the price bounds\<close>

text \<open>
  \<open>fromValue\<close> and \<open>toValue\<close> are numbers; \<open>None\<close> stands for the two values the
  guard \<open>v != null && !isNaN(v)\<close> rejects.
\<close>

definition set_bound :: "string \<Rightarrow> int option \<Rightarrow> (string \<times> json) list \<Rightarrow> (string \<times> json) list" where
  "set_bound key v fieldFilters =
     (case v of
        Some n \<Rightarrow> obj_set key (JArr [JNum n]) fieldFilters
      | None \<Rightarrow> obj_delete key fieldFilters)"

definition price_bounds ::
  "int option \<Rightarrow> int option \<Rightarrow> (string \<times> json) list \<Rightarrow> (string \<times> json) list" where
  "price_bounds fromValue toValue fieldFilters =
     set_bound ''price_to'' toValue (set_bound ''price_from'' fromValue fieldFilters)"

section \<open>JSON text\<close>

text \<open>
  \<open>JSON.stringify\<close> and \<open>JSON.parse\<close> on the values above.  A string is a list of
  code units below 256.  \<open>JSON_parse\<close> returns \<open>None\<close> where \<open>JSON.parse\<close> throws a
  \<open>SyntaxError\<close>; it also returns \<open>None\<close> on the two kinds of valid text that have
  no counterpart in \<^typ>\<open>json\<close>: a number with a fraction or an exponent, and a
  \<open>\u\<close> escape of a code unit from 256 on.
\<close>

definition dq :: char where
  "dq = CHR 0x22"

definition bsl :: char where
  "bsl = CHR 0x5C"

definition hex_char :: "nat \<Rightarrow> char" where
  "hex_char d = (if d < 10 then digit_char d else char_of (of_char (CHR ''a'') + (d - 10)))"

definition esc_char :: "char \<Rightarrow> string" where
  "esc_char c =
     (if c = dq then [bsl, dq]
      else if c = bsl then [bsl, bsl]
      else if c = CHR 0x08 then [bsl, CHR ''b'']
      else if c = CHR 0x09 then [bsl, CHR ''t'']
      else if c = CHR 0x0A then [bsl, CHR ''n'']
      else if c = CHR 0x0C then [bsl, CHR ''f'']
      else if c = CHR 0x0D then [bsl, CHR ''r'']
      else if (of_char c :: nat) < 32
        then [bsl, CHR ''u'', CHR ''0'', CHR ''0'',
              hex_char (of_char c div 16), hex_char (of_char c mod 16)]
      else [c])"

definition quote :: "string \<Rightarrow> string" where
  "quote s = dq # concat (map esc_char s) @ [dq]"

fun JSON_stringify :: "json \<Rightarrow> string"
  and stringify_elems :: "json list \<Rightarrow> string"
  and stringify_members :: "(string \<times> json) list \<Rightarrow> string" where
  "JSON_stringify JNull = ''null''"
| "JSON_stringify (JBool b) = (if b then ''true'' else ''false'')"
| "JSON_stringify (JNum n) = dec_int n"
| "JSON_stringify (JStr s) = quote s"
| "JSON_stringify (JArr xs) = ''['' @ stringify_elems xs @ '']''"
| "JSON_stringify (JObj kvs) = ''{'' @ stringify_members kvs @ ''}''"
| "stringify_elems [] = []"
| "stringify_elems [x] = JSON_stringify x"
| "stringify_elems (x # y # ys) = JSON_stringify x @ '','' @ stringify_elems (y # ys)"
| "stringify_members [] = []"
| "stringify_members [(k, v)] = quote k @ '':'' @ JSON_stringify v"
| "stringify_members ((k, v) # kv # kvs) =
     quote k @ '':'' @ JSON_stringify v @ '','' @ stringify_members (kv # kvs)"

subsection \<open>Parsing\<close>

definition is_ws :: "char \<Rightarrow> bool" where
  "is_ws c = (c = CHR 0x20 \<or> c = CHR 0x09 \<or> c = CHR 0x0A \<or> c = CHR 0x0D)"

fun skip_ws :: "string \<Rightarrow> string" where
  "skip_ws [] = []"
| "skip_ws (c # cs) = (if is_ws c then skip_ws cs else c # cs)"

definition is_digit :: "char \<Rightarrow> bool" where
  "is_digit c = ((of_char (CHR ''0'') :: nat) \<le> of_char c \<and> (of_char c :: nat) \<le> of_char (CHR ''9''))"

definition digit_val :: "char \<Rightarrow> nat" where
  "digit_val c = of_char c - of_char (CHR ''0'')"

definition in_range :: "char \<Rightarrow> char \<Rightarrow> char \<Rightarrow> bool" where
  "in_range lo hi c = ((of_char lo :: nat) \<le> of_char c \<and> (of_char c :: nat) \<le> of_char hi)"

definition hex_val :: "char \<Rightarrow> nat option" where
  "hex_val c =
     (if is_digit c then Some (digit_val c)
      else if in_range (CHR ''a'') (CHR ''f'') c then Some (of_char c - of_char (CHR ''a'') + 10)
      else if in_range (CHR ''A'') (CHR ''F'') c then Some (of_char c - of_char (CHR ''A'') + 10)
      else None)"

definition unescape :: "char \<Rightarrow> char option" where
  "unescape e =
     (if e = dq then Some dq
      else if e = bsl then Some bsl
      else if e = CHR ''/'' then Some (CHR ''/'')
      else if e = CHR ''b'' then Some (CHR 0x08)
      else if e = CHR ''t'' then Some (CHR 0x09)
      else if e = CHR ''n'' then Some (CHR 0x0A)
      else if e = CHR ''f'' then Some (CHR 0x0C)
      else if e = CHR ''r'' then Some (CHR 0x0D)
      else None)"

definition unicode_escape :: "char \<Rightarrow> char \<Rightarrow> char \<Rightarrow> char \<Rightarrow> char option" where
  "unicode_escape h1 h2 h3 h4 =
     (case (hex_val h1, hex_val h2, hex_val h3, hex_val h4) of
        (Some a, Some b, Some c, Some d) \<Rightarrow>
          (if a = 0 \<and> b = 0 then Some (char_of (16 * c + d)) else None)
      | _ \<Rightarrow> None)"

definition cons_result :: "char \<Rightarrow> (string \<times> string) option \<Rightarrow> (string \<times> string) option" where
  "cons_result c r = (case r of None \<Rightarrow> None | Some (s, rest) \<Rightarrow> Some (c # s, rest))"

text \<open>The characters of a string literal, after its opening quote, up to the closing one.\<close>

fun parse_chars :: "string \<Rightarrow> (string \<times> string) option" where
  "parse_chars [] = None"
| "parse_chars (c # cs) =
     (if c = dq then Some ([], cs)
      else if c = bsl then
        (case cs of
           [] \<Rightarrow> None
         | e # r \<Rightarrow>
             (if e = CHR ''u'' then
                (case r of
                   h1 # h2 # h3 # h4 # r' \<Rightarrow>
                     (case unicode_escape h1 h2 h3 h4 of
                        None \<Rightarrow> None
                      | Some ch \<Rightarrow> cons_result ch (parse_chars r'))
                 | _ \<Rightarrow> None)
              else
                (case unescape e of
                   None \<Rightarrow> None
                 | Some ch \<Rightarrow> cons_result ch (parse_chars r))))
      else if (of_char c :: nat) < 32 then None
      else cons_result c (parse_chars cs))"

definition digits_val :: "string \<Rightarrow> nat" where
  "digits_val ds = foldl (\<lambda>a c. 10 * a + digit_val c) 0 ds"

definition parse_digits :: "string \<Rightarrow> (nat \<times> string) option" where
  "parse_digits s =
     (let ds = takeWhile is_digit s; rest = dropWhile is_digit s
      in if ds = [] then None
         else if hd ds = CHR ''0'' \<and> length ds > 1 then None
         else if rest \<noteq> [] \<and> hd rest \<in> {CHR ''.'', CHR ''e'', CHR ''E''} then None
         else Some (digits_val ds, rest))"

definition parse_number :: "string \<Rightarrow> (json \<times> string) option" where
  "parse_number s =
     (case s of
        [] \<Rightarrow> None
      | c # cs \<Rightarrow>
          (if c = CHR ''-''
           then (case parse_digits cs of
                   None \<Rightarrow> None
                 | Some (n, rest) \<Rightarrow> Some (JNum (- int n), rest))
           else (case parse_digits s of
                   None \<Rightarrow> None
                 | Some (n, rest) \<Rightarrow> Some (JNum (int n), rest))))"

definition parse_literal :: "string \<Rightarrow> (json \<times> string) option" where
  "parse_literal s =
     (if take 4 s = ''null'' then Some (JNull, drop 4 s)
      else if take 4 s = ''true'' then Some (JBool True, drop 4 s)
      else if take 5 s = ''false'' then Some (JBool False, drop 5 s)
      else parse_number s)"

text \<open>
  A later member with a name already seen replaces the value of the earlier one and
  keeps its place, as object construction in \<open>JSON.parse\<close> does.
\<close>

definition build_object :: "(string \<times> json) list \<Rightarrow> json" where
  "build_object members = JObj (foldl (\<lambda>acc kv. obj_set (fst kv) (snd kv) acc) [] members)"

text \<open>
  The recursive descent runs on fuel: each nested call takes one unit.  \<open>JSON_parse\<close>
  starts with more than the text can use.
\<close>

fun parse_value :: "nat \<Rightarrow> string \<Rightarrow> (json \<times> string) option"
  and parse_elems :: "nat \<Rightarrow> string \<Rightarrow> (json list \<times> string) option"
  and parse_members :: "nat \<Rightarrow> string \<Rightarrow> ((string \<times> json) list \<times> string) option" where
  "parse_value 0 s = None"
| "parse_value (Suc f) s =
     (case skip_ws s of
        [] \<Rightarrow> None
      | c # r \<Rightarrow>
          (if c = CHR ''['' then
             (case skip_ws r of
                [] \<Rightarrow> None
              | c' # r' \<Rightarrow>
                  (if c' = CHR '']'' then Some (JArr [], r')
                   else (case parse_elems f r of
                           None \<Rightarrow> None
                         | Some (xs, rest) \<Rightarrow> Some (JArr xs, rest))))
           else if c = CHR ''{'' then
             (case skip_ws r of
                [] \<Rightarrow> None
              | c' # r' \<Rightarrow>
                  (if c' = CHR ''}'' then Some (JObj [], r')
                   else (case parse_members f r of
                           None \<Rightarrow> None
                         | Some (kvs, rest) \<Rightarrow> Some (build_object kvs, rest))))
           else if c = dq then
             (case parse_chars r of
                None \<Rightarrow> None
              | Some (str, rest) \<Rightarrow> Some (JStr str, rest))
           else parse_literal (c # r)))"
| "parse_elems 0 s = None"
| "parse_elems (Suc f) s =
     (case parse_value f s of
        None \<Rightarrow> None
      | Some (v, r) \<Rightarrow>
          (case skip_ws r of
             [] \<Rightarrow> None
           | c # r' \<Rightarrow>
               (if c = CHR '','' then
                  (case parse_elems f r' of
                     None \<Rightarrow> None
                   | Some (vs, rest) \<Rightarrow> Some (v # vs, rest))
                else if c = CHR '']'' then Some ([v], r')
                else None)))"
| "parse_members 0 s = None"
| "parse_members (Suc f) s =
     (case skip_ws s of
        [] \<Rightarrow> None
      | c # r \<Rightarrow>
          (if c \<noteq> dq then None
           else (case parse_chars r of
                   None \<Rightarrow> None
                 | Some (k, r1) \<Rightarrow>
                     (case skip_ws r1 of
                        [] \<Rightarrow> None
                      | c2 # r2 \<Rightarrow>
                          (if c2 \<noteq> CHR '':'' then None
                           else (case parse_value f r2 of
                                   None \<Rightarrow> None
                                 | Some (v, r3) \<Rightarrow>
                                     (case skip_ws r3 of
                                        [] \<Rightarrow> None
                                      | c4 # r4 \<Rightarrow>
                                          (if c4 = CHR '','' then
                                             (case parse_members f r4 of
                                                None \<Rightarrow> None
                                              | Some (kvs, rest) \<Rightarrow> Some ((k, v) # kvs, rest))
                                           else if c4 = CHR ''}'' then Some ([(k, v)], r4)
                                           else None))))))))"

definition JSON_parse :: "string \<Rightarrow> json option" where
  "JSON_parse s =
     (case parse_value (2 * length s + 2) s of
        None \<Rightarrow> None
      | Some (v, rest) \<Rightarrow> (if skip_ws rest = [] then Some v else None))"

section \<open>The query string\<close>

text \<open>
  \<open>URLSearchParams\<close>: an ordered list of name and value pairs. \<open>get\<close> returns the
  first value of a name, \<open>set\<close> overwrites the first pair of that name and removes the
  others (or appends a pair), \<open>delete\<close> removes every pair of the name.  Assigning
  \<open>window.location.href\<close> loads the page at the new address, whose query string holds
  these pairs.
\<close>

type_synonym params = "(string \<times> string) list"

definition sp_get :: "string \<Rightarrow> params \<Rightarrow> string option" where
  "sp_get k ps = map_of ps k"

definition sp_delete :: "string \<Rightarrow> params \<Rightarrow> params" where
  "sp_delete k ps = filter (\<lambda>kv. fst kv \<noteq> k) ps"

fun sp_set :: "string \<Rightarrow> string \<Rightarrow> params \<Rightarrow> params" where
  "sp_set k v [] = [(k, v)]"
| "sp_set k v ((k', v') # ps) =
     (if k' = k then (k, v) # sp_delete k ps else (k', v') # sp_set k v ps)"

subsection \<open>Decode: lines 102 to 110 (and 350 to 358)\<close>

definition falsy :: "json \<Rightarrow> bool" where
  "falsy v = (v = JNull \<or> v = JBool False \<or> v = JNum 0 \<or> v = JStr [])"

definition decode :: "params \<Rightarrow> json" where
  "decode search =
     (case sp_get ''field_filters'' search of
        None \<Rightarrow> JObj []
      | Some rawFieldFilters \<Rightarrow>
          (if rawFieldFilters = [] then JObj []
           else (case JSON_parse rawFieldFilters of
                   None \<Rightarrow> JObj []
                 | Some v \<Rightarrow> (if falsy v then JObj [] else v))))"

subsection \<open>Encode: lines 128 to 138 (and 372 to 382)\<close>

definition encode :: "(string \<times> json) list \<Rightarrow> params \<Rightarrow> params" where
  "encode fieldFilters search =
     sp_delete ''start''
       (sp_set ''from_filters'' ''1''
          (if fieldFilters \<noteq> []
           then sp_set ''field_filters'' (JSON_stringify (JObj fieldFilters)) search
           else sp_delete ''field_filters'' search))"

subsection \<open>The two handlers\<close>

text \<open>
  Both handlers read the object, change it and navigate.  A parameter that holds JSON
  text of something else than an object (an array, a number, a string, \<open>true\<close>) is not a
  filter state; the handlers are modelled on objects only and give \<open>None\<close> otherwise.
\<close>

definition applyFieldFilterChange ::
  "string \<Rightarrow> string option \<Rightarrow> bool \<Rightarrow> params \<Rightarrow> params option" where
  "applyFieldFilterChange filterName filterValue checked search =
     (case decode search of
        JObj fieldFilters \<Rightarrow>
          Some (encode (toggleValue fieldFilters filterName filterValue checked) search)
      | _ \<Rightarrow> None)"

definition applyPriceFilter :: "int option \<Rightarrow> int option \<Rightarrow> params \<Rightarrow> params option" where
  "applyPriceFilter fromValue toValue search =
     (case decode search of
        JObj fieldFilters \<Rightarrow> Some (encode (price_bounds fromValue toValue fieldFilters) search)
      | _ \<Rightarrow> None)"

subsection \<open>Filter states whose values are lists of strings\<close>

fun is_JStr :: "json \<Rightarrow> bool" where
  "is_JStr (JStr s) = True"
| "is_JStr v = False"

definition string_list :: "json \<Rightarrow> bool" where
  "string_list v = (case v of JArr xs \<Rightarrow> list_all is_JStr xs | _ \<Rightarrow> False)"

definition string_lists :: "(string \<times> json) list \<Rightarrow> bool" where
  "string_lists kvs = list_all (\<lambda>kv. string_list (snd kv)) kvs"

subsection \<open>Reading the text back\<close>

text \<open>
  What follows supports the statement that \<open>JSON_parse\<close> reads back what
  \<open>JSON_stringify\<close> wrote: the characters that may follow a value, the values whose
  objects have no name twice (a JavaScript object never has), and the fuel the descent
  uses on a value.
\<close>

definition delim :: "string \<Rightarrow> bool" where
  "delim rest = (case rest of [] \<Rightarrow> True | c # cs \<Rightarrow> c = CHR '','' \<or> c = CHR '']'' \<or> c = CHR ''}'')"

fun wf_json :: "json \<Rightarrow> bool"
  and wf_elems :: "json list \<Rightarrow> bool"
  and wf_members :: "(string \<times> json) list \<Rightarrow> bool" where
  "wf_json (JArr xs) = wf_elems xs"
| "wf_json (JObj kvs) = (distinct (map fst kvs) \<and> wf_members kvs)"
| "wf_json v = True"
| "wf_elems [] = True"
| "wf_elems (x # xs) = (wf_json x \<and> wf_elems xs)"
| "wf_members [] = True"
| "wf_members ((k, v) # kvs) = (wf_json v \<and> wf_members kvs)"

fun need_v :: "json \<Rightarrow> nat"
  and need_es :: "json list \<Rightarrow> nat"
  and need_ms :: "(string \<times> json) list \<Rightarrow> nat" where
  "need_v (JArr xs) = Suc (need_es xs)"
| "need_v (JObj kvs) = Suc (need_ms kvs)"
| "need_v v = 1"
| "need_es [] = 0"
| "need_es (x # xs) = Suc (need_v x + need_es xs)"
| "need_ms [] = 0"
| "need_ms ((k, v) # kvs) = Suc (need_v v + need_ms kvs)"

definition token_start :: "char \<Rightarrow> bool" where
  "token_start c = (\<not> is_ws c \<and> c \<noteq> CHR '']'' \<and> c \<noteq> CHR ''}'')"

text \<open>A filter state as the claims speak of it: names with their lists of strings.\<close>

definition state_obj :: "(string \<times> string list) list \<Rightarrow> (string \<times> json) list" where
  "state_obj state = map (\<lambda>kv. (fst kv, JArr (map JStr (snd kv)))) state"

section \<open>Quantity controls on listing cards\<close>

text \<open>
  The script of the quantity controls reads and writes three things under a card, all
  found by the item code: the wrapper of the stepper
  (\<open>.listing-qty-wrapper[data-item-code=...]\<close>) with its \<open>hidden\<close> class and the value
  of its \<open>.cart-qty\<close> input, and the \<open>hidden\<close> class of the Add to Cart button
  (\<open>.btn-add-to-cart-list[data-item-code=...]\<close>).  A card is the map from item codes to
  these.  The selectors are built by pasting the item code between double quotes, so item
  codes are taken to hold no quote and no backslash.
\<close>

record wrapper =
  w_hidden :: bool
  w_input :: "string option"

record slot =
  qty_wrapper :: "wrapper option"
  add_btn_hidden :: "bool option"

type_synonym card = "string \<Rightarrow> slot"

subsection \<open>\<open>renderQtyControls\<close>\<close>

text \<open>
  \<open>initialQty\<close> is \<open>None\<close> for \<open>null\<close> and \<open>undefined\<close>.  A new wrapper is built
  with the input in it, and is not hidden.
\<close>

definition renderQtyControls :: "card \<Rightarrow> string \<Rightarrow> int option \<Rightarrow> card" where
  "renderQtyControls crd itemCode initialQty =
     (if itemCode = [] then crd
      else
        (case qty_wrapper (crd itemCode) of
           Some existing \<Rightarrow>
             crd(itemCode := (crd itemCode)\<lparr>qty_wrapper :=
               Some (existing\<lparr>w_hidden := False,
                  w_input := (case (w_input existing, initialQty) of
                                (Some old, Some q) \<Rightarrow> Some (dec_int q)
                              | (inputExisting, _) \<Rightarrow> inputExisting)\<rparr>)\<rparr>)
         | None \<Rightarrow>
             crd(itemCode := \<lparr>qty_wrapper =
                 Some \<lparr>w_hidden = False,
                       w_input = Some (dec_int (case initialQty of Some q \<Rightarrow> q | None \<Rightarrow> 1))\<rparr>,
               add_btn_hidden = map_option (\<lambda>h. True) (add_btn_hidden (crd itemCode))\<rparr>)))"

subsection \<open>\<open>updateQty\<close>\<close>

text \<open>
  The request either never calls back (the call failed on the network) or calls back
  with \<open>r\<close>, which may be missing (\<open>None\<close>) or carry the error flag \<open>exc\<close>.
\<close>

record response =
  exc :: bool

datatype outcome = NoCallback | Callback "response option"

definition updateQty_callback :: "card \<Rightarrow> string \<Rightarrow> int \<Rightarrow> response option \<Rightarrow> card" where
  "updateQty_callback crd itemCode newQty r =
     (if (case r of Some resp \<Rightarrow> exc resp | None \<Rightarrow> False) then crd
      else
        (case qty_wrapper (crd itemCode) of
           None \<Rightarrow> crd
         | Some wrapper \<Rightarrow>
             (if newQty = 0 then
                crd(itemCode := \<lparr>qty_wrapper =
                    Some (wrapper\<lparr>w_hidden := True,
                       w_input := map_option (\<lambda>v. ''0'') (w_input wrapper)\<rparr>),
                  add_btn_hidden = map_option (\<lambda>h. False) (add_btn_hidden (crd itemCode))\<rparr>)
              else
                crd(itemCode := (crd itemCode)\<lparr>qty_wrapper :=
                    Some (wrapper\<lparr>w_input :=
                       map_option (\<lambda>v. dec_int newQty) (w_input wrapper)\<rparr>)\<rparr>))))"

definition updateQty :: "card \<Rightarrow> string \<Rightarrow> int \<Rightarrow> outcome \<Rightarrow> card" where
  "updateQty crd itemCode newQty0 out =
     (let newQty = (if newQty0 < 0 then 0 else newQty0)
      in case out of
           NoCallback \<Rightarrow> crd
         | Callback r \<Rightarrow> updateQty_callback crd itemCode newQty r)"

subsection \<open>The click on \<open>+\<close> or \<open>\<minus>\<close>\<close>

text \<open>\<open>parseInt(text, 10)\<close>: leading white space, a sign, then the longest run of digits.\<close>

definition parseInt :: "string \<Rightarrow> int option" where
  "parseInt text =
     (let s = dropWhile (\<lambda>c. is_ws c \<or> c = CHR 0x0B \<or> c = CHR 0x0C) text;
          neg = (s \<noteq> [] \<and> hd s = CHR ''-'');
          body = (if s \<noteq> [] \<and> (hd s = CHR ''-'' \<or> hd s = CHR ''+'') then tl s else s);
          ds = takeWhile is_digit body
      in if ds = [] then None
         else Some (if neg then - int (digits_val ds) else int (digits_val ds)))"

definition current_qty :: "wrapper \<Rightarrow> int" where
  "current_qty wrapper =
     (let text = (case w_input wrapper of
                    None \<Rightarrow> ''1''
                  | Some v \<Rightarrow> (if v = [] then ''1'' else v))
      in case parseInt text of
           None \<Rightarrow> 1
         | Some current \<Rightarrow> (if current < 1 then 1 else current))"

datatype dir = Up | Dwn | OtherDir

text \<open>The requested quantity of a click; \<open>None\<close> when the handler returns without a call.\<close>

definition requested_qty :: "card \<Rightarrow> string \<Rightarrow> dir \<Rightarrow> int option" where
  "requested_qty crd itemCode d =
     (if itemCode = [] then None
      else
        (case qty_wrapper (crd itemCode) of
           None \<Rightarrow> None
         | Some wrapper \<Rightarrow>
             (case d of
                Up \<Rightarrow> Some (current_qty wrapper + 1)
              | Dwn \<Rightarrow> Some (let n = current_qty wrapper - 1 in if n < 0 then 0 else n)
              | OtherDir \<Rightarrow> None)))"

definition stepperClick :: "card \<Rightarrow> string \<Rightarrow> dir \<Rightarrow> outcome \<Rightarrow> card" where
  "stepperClick crd itemCode d out =
     (case requested_qty crd itemCode d of
        None \<Rightarrow> crd
      | Some newQty \<Rightarrow> updateQty crd itemCode newQty out)"

subsection \<open>The click on Add to Cart, and the cards the core marks as in the cart\<close>

text \<open>
  The click handler hides the button at once and renders the stepper 200 ms later; it
  returns early for a guest.  \<open>syncExistingInCartCards\<close> renders the stepper for a card
  in whose scope a cart indicator or a Go to Cart button of the item is not hidden.
\<close>

definition addToCartClick :: "bool \<Rightarrow> card \<Rightarrow> string \<Rightarrow> card" where
  "addToCartClick guest crd itemCode =
     (if guest \<or> itemCode = [] then crd
      else crd(itemCode := (crd itemCode)\<lparr>add_btn_hidden :=
                  map_option (\<lambda>h. True) (add_btn_hidden (crd itemCode))\<rparr>))"

definition addToCartTimeout :: "bool \<Rightarrow> card \<Rightarrow> string \<Rightarrow> card" where
  "addToCartTimeout guest crd itemCode =
     (if guest \<or> itemCode = [] then crd else renderQtyControls crd itemCode (Some 1))"

definition syncExistingInCartCards :: "bool \<Rightarrow> bool \<Rightarrow> card \<Rightarrow> string \<Rightarrow> card" where
  "syncExistingInCartCards indicatorShown goToCartShown crd itemCode =
     (let card1 = (if indicatorShown then renderQtyControls crd itemCode (Some 1) else crd)
      in if goToCartShown then renderQtyControls card1 itemCode (Some 1) else card1)"

subsection \<open>What the card shows, and what the backend last confirmed\<close>

definition shown_qty :: "card \<Rightarrow> string \<Rightarrow> string option" where
  "shown_qty crd itemCode =
     (case qty_wrapper (crd itemCode) of
        None \<Rightarrow> None
      | Some wrapper \<Rightarrow> (if w_hidden wrapper then None else w_input wrapper))"

text \<open>
  The quantity the cart-update endpoint last confirmed for an item is not in the page; it
  is kept beside the card to state what the page shows against it.  A callback without
  the error flag confirms the quantity that was sent.
\<close>

record overlay_state =
  the_card :: card
  confirmed :: "string \<Rightarrow> int option"

datatype event =
    StepperClick string dir outcome
  | AddToCartClick bool string
  | AddToCartTimeout bool string
  | InCartSync bool bool string

fun transition :: "overlay_state \<Rightarrow> event \<Rightarrow> overlay_state" where
  "transition st (StepperClick itemCode d out) =
     \<lparr>the_card = stepperClick (the_card st) itemCode d out,
      confirmed =
        (case (requested_qty (the_card st) itemCode d, out) of
           (Some newQty, Callback (Some r)) \<Rightarrow>
             (if exc r then confirmed st else (confirmed st)(itemCode := Some newQty))
         | _ \<Rightarrow> confirmed st)\<rparr>"
| "transition st (AddToCartClick guest itemCode) =
     st\<lparr>the_card := addToCartClick guest (the_card st) itemCode\<rparr>"
| "transition st (AddToCartTimeout guest itemCode) =
     st\<lparr>the_card := addToCartTimeout guest (the_card st) itemCode\<rparr>"
| "transition st (InCartSync indicatorShown goToCartShown itemCode) =
     st\<lparr>the_card :=
          syncExistingInCartCards indicatorShown goToCartShown (the_card st) itemCode\<rparr>"

section \<open>The price slider\<close>

text \<open>
  Amounts and slider positions are JavaScript numbers; they are exact rationals here, so
  the rounding of floating point is not part of the model.
\<close>

subsection \<open>\<open>renderPriceRanges\<close>, lines 311 to 323: the upper bound of the slider\<close>

text \<open>
  A range comes from the facet request.  \<open>to_amount\<close> is \<open>None\<close> when the field is
  missing, \<open>null\<close> or not a number: what the filter
  \<open>typeof v === "number" && !isNaN(v)\<close> drops.
\<close>

record price_range =
  label :: string
  from_amount :: "rat option"
  to_amount :: "rat option"

fun numbers :: "rat option list \<Rightarrow> rat list" where
  "numbers [] = []"
| "numbers (None # vs) = numbers vs"
| "numbers (Some v # vs) = v # numbers vs"

definition Math_max :: "rat list \<Rightarrow> rat" where
  "Math_max vs = fold max (tl vs) (hd vs)"

definition maxPrice :: "price_range list \<Rightarrow> int" where
  "maxPrice ranges =
     (let toValues = numbers (map to_amount ranges)
      in if toValues \<noteq> []
         then \<lceil>Math_max toValues / 1000\<rceil> * 1000
         else 100000)"

subsection \<open>\<open>enforceOrderContinuous\<close> and the four handlers that run it\<close>

text \<open>
  The two range inputs hold a number each.  A range input does not keep any value that is
  assigned to it: the browser brings it into the range and onto a step.  \<open>san\<close> stands
  for that, the same for both inputs, as both have the same \<open>min\<close>, \<open>max\<close> and
  \<open>step\<close>.  A number box holds what was typed or assigned: \<open>None\<close> for text that
  \<open>parseFloat\<close> turns into \<open>NaN\<close>.
\<close>

datatype range_text = ShowAll | ShowRange rat rat

record price_widget =
  minSlider :: rat
  maxSlider :: rat
  minInputBox :: "rat option"
  maxInputBox :: "rat option"
  display :: range_text

definition updateDisplayContinuous :: "int \<Rightarrow> price_widget \<Rightarrow> price_widget" where
  "updateDisplayContinuous maxP w =
     (let minVal = minSlider w; maxVal = maxSlider w
      in if minVal = 0 \<and> maxVal = of_int maxP
         then w\<lparr>display := ShowAll\<rparr>
         else w\<lparr>display := ShowRange minVal maxVal\<rparr>)"

definition enforceOrderContinuous :: "(rat \<Rightarrow> rat) \<Rightarrow> int \<Rightarrow> price_widget \<Rightarrow> price_widget" where
  "enforceOrderContinuous san maxP w =
     (let minV = minSlider w; maxV = maxSlider w;
          w1 = (if minV > maxV
                then w\<lparr>minSlider := san maxV, maxSlider := san minV\<rparr>
                else w);
          w2 = w1\<lparr>minInputBox := Some (minSlider w1), maxInputBox := Some (maxSlider w1)\<rparr>
      in updateDisplayContinuous maxP w2)"

text \<open>
  The \<open>input\<close> event of a slider arrives after the browser has moved the handle to
  \<open>pos\<close>; the \<open>change\<close> event of a number box arrives with the edited text in the
  box.
\<close>

definition minSlider_input :: "(rat \<Rightarrow> rat) \<Rightarrow> int \<Rightarrow> rat \<Rightarrow> price_widget \<Rightarrow> price_widget" where
  "minSlider_input san maxP pos w = enforceOrderContinuous san maxP (w\<lparr>minSlider := pos\<rparr>)"

definition maxSlider_input :: "(rat \<Rightarrow> rat) \<Rightarrow> int \<Rightarrow> rat \<Rightarrow> price_widget \<Rightarrow> price_widget" where
  "maxSlider_input san maxP pos w = enforceOrderContinuous san maxP (w\<lparr>maxSlider := pos\<rparr>)"

definition minInputBox_change :: "(rat \<Rightarrow> rat) \<Rightarrow> int \<Rightarrow> price_widget \<Rightarrow> price_widget" where
  "minInputBox_change san maxP w =
     (case minInputBox w of
        None \<Rightarrow> w
      | Some v \<Rightarrow> enforceOrderContinuous san maxP (w\<lparr>minSlider := san v\<rparr>))"

definition maxInputBox_change :: "(rat \<Rightarrow> rat) \<Rightarrow> int \<Rightarrow> price_widget \<Rightarrow> price_widget" where
  "maxInputBox_change san maxP w =
     (case maxInputBox w of
        None \<Rightarrow> w
      | Some v \<Rightarrow> enforceOrderContinuous san maxP (w\<lparr>maxSlider := san v\<rparr>))"

definition ordered_and_mirrored :: "price_widget \<Rightarrow> bool" where
  "ordered_and_mirrored w =
     (minSlider w \<le> maxSlider w
      \<and> minInputBox w = Some (minSlider w) \<and> maxInputBox w = Some (maxSlider w))"

text \<open>The sanitisation of \<open>\<langle>input type="range" min="0" max=maxP step="1"\<rangle>\<close>, for the witness.\<close>

definition range_san :: "int \<Rightarrow> rat \<Rightarrow> rat" where
  "range_san maxP v = max 0 (min (of_int maxP) (of_int \<lfloor>v + 1 / 2\<rfloor>))"

section \<open>When the three injection scripts run\<close>

text \<open>
  Each of \<open>product_offers.js\<close>, \<open>consumer_discount.js\<close> and the badge script
  registers its injection function in \<open>frappe.ready\<close>: with \<open>setTimeout\<close>, and, the
  badge script only, with a \<open>MutationObserver\<close> on the listing whose callback clears the
  pending timer and starts one of 400 ms.  Times are milliseconds after \<open>ready\<close>.
\<close>

datatype kind = Offers | Badges | Discounts

record triggers =
  delays :: "nat list"
  observer_delay :: "nat option"

fun triggers_of :: "kind \<Rightarrow> triggers" where
  "triggers_of Offers = \<lparr>delays = [600], observer_delay = None\<rparr>"
| "triggers_of Discounts = \<lparr>delays = [500], observer_delay = None\<rparr>"
| "triggers_of Badges = \<lparr>delays = [600, 1500, 3000], observer_delay = Some 400\<rparr>"

text \<open>
  The observer's timer, over the times of the mutation callbacks in the order they come:
  a callback at \<open>t\<close> replaces the pending timer by one due at \<open>t + q\<close>, which runs if
  no later callback comes before it is due.
\<close>

fun debounced :: "nat \<Rightarrow> nat list \<Rightarrow> nat list" where
  "debounced q [] = []"
| "debounced q [t] = [t + q]"
| "debounced q (t # t' # ts) =
     (if t + q \<le> t' then (t + q) # debounced q (t' # ts) else debounced q (t' # ts))"

text \<open>
  The times at which the injection function of a kind is called.  The observer is set up
  only when the listing element exists at \<open>ready\<close>.
\<close>

definition sync_times :: "kind \<Rightarrow> bool \<Rightarrow> nat list \<Rightarrow> nat list" where
  "sync_times k listing_present mutations =
     delays (triggers_of k) @
       (case observer_delay (triggers_of k) of
          Some q \<Rightarrow> (if listing_present then debounced q mutations else [])
        | None \<Rightarrow> [])"

text \<open>A burst: each mutation callback comes less than \<open>q\<close> after the one before.\<close>

fun burst :: "nat \<Rightarrow> nat list \<Rightarrow> bool" where
  "burst q [] = True"
| "burst q [t] = True"
| "burst q (t # t' # ts) = (t \<le> t' \<and> t' < t + q \<and> burst q (t' # ts))"

section \<open>The page as a tree\<close>

text \<open>
  The three injection scripts work on the document through \<open>querySelectorAll\<close>,
  \<open>querySelector\<close>, \<open>closest\<close> and \<open>insertBefore\<close>.  A node carries its identity
  (the scripts hold on to elements while they change the tree), its tag, its classes, its
  \<open>data-item-code\<close> attribute, and its children in order.  \<open>content\<close> is the text of a
  text node (tag \<open>#text\<close>), and for an element the script builds it is what the script
  assigned to \<open>textContent\<close> or \<open>innerHTML\<close>: such markup is kept as text, and is taken
  to hold none of the classes, tags and attributes the scripts select on.
\<close>

datatype node =
  Node (nid: nat) (tag: string) (classes: "string list") (item_code: "string option")
    (content: string) (kids: "node list")

datatype sel = Cls string | Tag string | HasCode | CodeIs string | Or sel sel

fun matches :: "sel \<Rightarrow> node \<Rightarrow> bool" where
  "matches (Cls c) n = (c \<in> set (classes n))"
| "matches (Tag t) n = (tag n = t)"
| "matches HasCode n = (item_code n \<noteq> None)"
| "matches (CodeIs c) n = (item_code n = Some c)"
| "matches (Or a b) n = (matches a n \<or> matches b n)"

text \<open>The descendants of a node in document order.\<close>

fun desc :: "node \<Rightarrow> node list"
  and desc_list :: "node list \<Rightarrow> node list" where
  "desc (Node i t cs a x ks) = desc_list ks"
| "desc_list [] = []"
| "desc_list (k # ks) = k # desc k @ desc_list ks"

definition querySelectorAll :: "sel \<Rightarrow> node \<Rightarrow> node list" where
  "querySelectorAll s n = filter (matches s) (desc n)"

definition querySelector :: "sel \<Rightarrow> node \<Rightarrow> node option" where
  "querySelector s n = find (matches s) (desc n)"

text \<open>
  The node of identity \<open>t\<close> with its ancestors, innermost first; \<open>None\<close> when the node
  is not in the tree.
\<close>

fun anc :: "nat \<Rightarrow> node \<Rightarrow> node list option"
  and anc_list :: "nat \<Rightarrow> node list \<Rightarrow> node list option" where
  "anc t (Node i tg cs a x ks) =
     (if i = t then Some [Node i tg cs a x ks]
      else (case anc_list t ks of
              None \<Rightarrow> None
            | Some chain \<Rightarrow> Some (chain @ [Node i tg cs a x ks])))"
| "anc_list t [] = None"
| "anc_list t (k # ks) =
     (case anc t k of
        Some chain \<Rightarrow> Some chain
      | None \<Rightarrow> anc_list t ks)"

definition closest :: "sel \<Rightarrow> nat \<Rightarrow> node \<Rightarrow> node option" where
  "closest s t d = (case anc t d of None \<Rightarrow> None | Some chain \<Rightarrow> find (matches s) chain)"

definition element :: "nat \<Rightarrow> node \<Rightarrow> node option" where
  "element t d = (case anc t d of None \<Rightarrow> None | Some chain \<Rightarrow> Some (hd chain))"

text \<open>
  Insertion of a new node \<open>w\<close>: directly after the node of identity \<open>a\<close>, among the
  children of its parent (\<open>parent.insertBefore(w, a.nextSibling)\<close>, or
  \<open>parent.appendChild(w)\<close> when \<open>a\<close> is the last child), or before the first child
  of the node of identity \<open>c\<close> (\<open>c.insertBefore(w, c.firstChild)\<close>).
\<close>

datatype place = After nat | FirstIn nat

fun put :: "place \<Rightarrow> node \<Rightarrow> node \<Rightarrow> node"
  and put_list :: "place \<Rightarrow> node \<Rightarrow> node list \<Rightarrow> node list" where
  "put p w (Node i tg cs a x ks) =
     Node i tg cs a x ((if p = FirstIn i then [w] else []) @ put_list p w ks)"
| "put_list p w [] = []"
| "put_list p w (k # ks) =
     put p w k # (if p = After (nid k) then [w] else []) @ put_list p w ks"

text \<open>A new element gets an identity no node of the document has.\<close>

fun ids :: "node \<Rightarrow> nat list"
  and ids_list :: "node list \<Rightarrow> nat list" where
  "ids (Node i tg cs a x ks) = i # ids_list ks"
| "ids_list [] = []"
| "ids_list (k # ks) = ids k @ ids_list ks"

definition fresh :: "node \<Rightarrow> nat" where
  "fresh d = Suc (fold max (ids d) 0)"

text \<open>
  The tree without the subtrees whose root has an identity from \<open>b\<close> on: with
  \<open>b = fresh d\<close>, what is left of a later tree once everything built after \<open>d\<close> is
  taken out again.
\<close>

fun prune :: "nat \<Rightarrow> node \<Rightarrow> node"
  and prune_list :: "nat \<Rightarrow> node list \<Rightarrow> node list" where
  "prune b (Node i tg cs a x ks) = Node i tg cs a x (prune_list b ks)"
| "prune_list b [] = []"
| "prune_list b (k # ks) =
     (if b \<le> nid k then prune_list b ks else prune b k # prune_list b ks)"

section \<open>Harvesting the item codes\<close>

text \<open>
  The first lines of the three injection functions are the same: find the listing, collect
  the elements with a \<open>data-item-code\<close>, put the non-empty codes into a \<open>Set\<close>, and
  return before any request when there is nothing.  \<open>Array.from\<close> lists the codes in the
  order of their first occurrence.
\<close>

definition add_code :: "string list \<Rightarrow> node \<Rightarrow> string list" where
  "add_code codeSet el =
     (case item_code el of
        None \<Rightarrow> codeSet
      | Some c \<Rightarrow> (if c = [] \<or> c \<in> set codeSet then codeSet else codeSet @ [c]))"

definition harvest :: "nat \<Rightarrow> node \<Rightarrow> string list" where
  "harvest listing d =
     (case element listing d of
        None \<Rightarrow> []
      | Some listingEl \<Rightarrow> foldl add_code [] (querySelectorAll HasCode listingEl))"

text \<open>
  \<open>listing.querySelectorAll('[data-item-code="' + code + '"]')\<close>, as identities.  The
  offers and the discount script paste the code into the selector as it is, the badge
  script through \<open>CSS.escape\<close>; item codes are taken to hold no quote, backslash or line
  break, so that both select the elements whose attribute is equal to the code.
\<close>

definition targets :: "string \<Rightarrow> nat \<Rightarrow> node \<Rightarrow> nat list" where
  "targets code listing d =
     (case element listing d of
        None \<Rightarrow> []
      | Some listingEl \<Rightarrow> map nid (querySelectorAll (CodeIs code) listingEl))"

section \<open>\<open>injectProductOffers\<close>\<close>

record offer =
  offer_title :: "string option"
  offer_subtitle :: "string option"

definition tag_icon :: string where
  \<open>tag_icon =
     ''<span class="mr-1 tag-icon"><svg class="icon icon-lg"><use href="#icon-tag"></use></svg></span>''\<close>

definition offer_icon :: string where
  \<open>offer_icon =
     ''<div class="mr-2">'' @
     ''<svg width="24" height="24" viewBox="0 0 24 24" stroke="var(--yellow-500)" fill="none" xmlns="http://www.w3.org/2000/svg">'' @
     ''<path d="M19 15.6213C19 15.2235 19.158 14.842 19.4393 14.5607L20.9393 13.0607C21.5251 12.4749 21.5251 11.5251 20.9393 10.9393L19.4393 9.43934C19.158 9.15804 19 8.7765 19 8.37868V6.5C19 5.67157 18.3284 5 17.5 5H15.6213C15.2235 5 14.842 4.84196 14.5607 4.56066L13.0607 3.06066C12.4749 2.47487 11.5251 2.47487 10.9393 3.06066L9.43934 4.56066C9.15804 4.84196 8.7765 5 8.37868 5H6.5C5.67157 5 5 5.67157 5 6.5V8.37868C5 8.7765 4.84196 9.15804 4.56066 9.43934L3.06066 10.9393C2.47487 11.5251 2.47487 12.4749 3.06066 13.0607L4.56066 14.5607C4.84196 14.842 5 15.2235 5 15.6213V17.5C5 18.3284 5.67157 19 6.5 19H8.37868C8.7765 19 9.15804 19.158 9.43934 19.4393L10.9393 20.9393C11.5251 21.5251 12.4749 21.5251 13.0607 20.9393L14.5607 19.4393C14.842 19.158 15.2235 19 15.6213 19H17.5C18.3284 19 19 18.3284 19 17.5V15.6213Z" stroke-miterlimit="10" stroke-linecap="round" stroke-linejoin="round"/>'' @
     ''<path d="M15 9L9 15" stroke-miterlimit="10" stroke-linecap="round" stroke-linejoin="round"/>'' @
     ''<path d="M10.5 9.5C10.5 10.0523 10.0523 10.5 9.5 10.5C8.94772 10.5 8.5 10.0523 8.5 9.5C8.5 8.94772 8.94772 8.5 9.5 8.5C10.0523 8.5 10.5 8.94772 10.5 9.5Z" fill="white" stroke-linecap="round" stroke-linejoin="round"/>'' @
     ''<path d="M15.5 14.5C15.5 15.0523 15.0523 15.5 14.5 15.5C13.9477 15.5 13.5 15.0523 13.5 14.5C13.5 13.9477 13.9477 13.5 14.5 13.5C15.0523 13.5 15.5 13.9477 15.5 14.5Z" fill="white" stroke-linecap="round" stroke-linejoin="round"/>'' @
     ''</svg>'' @
     ''</div>''\<close>

text \<open>\<open>tr\<close> is the translation function \<open>__\<close> of the page.\<close>

definition offer_line :: "(string \<Rightarrow> string) \<Rightarrow> nat \<Rightarrow> offer \<Rightarrow> node" where
  \<open>offer_line tr i ofr =
     Node i ''div'' [''mt-2'', ''d-flex''] None
       (offer_icon @ ''<p class="mr-1 mb-1">'' @
        tr (case offer_title ofr of None \<Rightarrow> [] | Some t \<Rightarrow> t) @
        (case offer_subtitle ofr of
           None \<Rightarrow> []
         | Some s \<Rightarrow> (if s = [] then [] else '': '' @ tr s)) @
        ''</p>'')
       []\<close>

fun offer_lines :: "(string \<Rightarrow> string) \<Rightarrow> nat \<Rightarrow> offer list \<Rightarrow> node list" where
  "offer_lines tr i [] = []"
| "offer_lines tr i (ofr # ofrs) = offer_line tr i ofr # offer_lines tr (Suc i) ofrs"

definition offer_wrapper :: "(string \<Rightarrow> string) \<Rightarrow> nat \<Rightarrow> offer list \<Rightarrow> node" where
  "offer_wrapper tr b offers =
     Node b ''div'' [''mt-2''] None []
       [Node (b + 1) ''div'' [''offers-heading'', ''mb-2''] None
          (tag_icon @ ''<b>'' @ tr ''Available Offers'' @ ''</b>'') [],
        Node (b + 2) ''div'' [''offer-container''] None [] [],
        Node (b + 3) ''div'' [] None [] (offer_lines tr (b + 4) offers)]"

definition card_sel :: sel where
  "card_sel = Or (Cls ''item-card'') (Cls ''card'')"

definition inject_offer :: "(string \<Rightarrow> string) \<Rightarrow> offer list \<Rightarrow> nat \<Rightarrow> node \<Rightarrow> node" where
  "inject_offer tr offers el d =
     (case closest card_sel el d of
        None \<Rightarrow> d
      | Some crd \<Rightarrow>
          (if querySelector (Cls ''offer-container'') crd \<noteq> None then d
           else (case querySelector (Cls ''product-price'') crd of
                   None \<Rightarrow> d
                 | Some priceEl \<Rightarrow>
                     put (After (nid priceEl)) (offer_wrapper tr (fresh d) offers) d)))"

text \<open>
  The callback of the request.  \<open>message\<close> is \<open>None\<close> when the response has no
  message; a code without offers has the empty list.  \<open>forEach\<close> goes over the codes
  harvested before the request, and for each over the elements found at that moment.
\<close>

definition offers_callback ::
  "(string \<Rightarrow> string) \<Rightarrow> nat \<Rightarrow> string list \<Rightarrow> (string \<Rightarrow> offer list) option \<Rightarrow> node \<Rightarrow> node" where
  "offers_callback tr listing itemCodes message d =
     (case message of
        None \<Rightarrow> d
      | Some offersByCode \<Rightarrow>
          fold (\<lambda>code d1.
                  if offersByCode code = [] then d1
                  else fold (inject_offer tr (offersByCode code)) (targets code listing d1) d1)
            itemCodes d)"

definition injectProductOffers ::
  "(string \<Rightarrow> string) \<Rightarrow> (string \<Rightarrow> offer list) option \<Rightarrow> nat \<Rightarrow> node \<Rightarrow> node" where
  "injectProductOffers tr message listing d =
     offers_callback tr listing (harvest listing d) message d"

section \<open>\<open>injectConsumerDiscount\<close>\<close>

text \<open>
  A discount is a whole number of percent; 0 is what the script skips
  (\<open>if (!discount) return\<close>), a missing entry included.
\<close>

definition discount_info :: "(string \<Rightarrow> string) \<Rightarrow> nat \<Rightarrow> int \<Rightarrow> node" where
  "discount_info tr b discount =
     Node b ''div'' [''customer-discount-info''] None
       (tr ''Consumer Offer'' @ '': '' @ dec_int discount @ ''%'') []"

definition inject_discount :: "(string \<Rightarrow> string) \<Rightarrow> int \<Rightarrow> nat \<Rightarrow> node \<Rightarrow> node" where
  "inject_discount tr discount btn d =
     (case closest card_sel btn d of
        None \<Rightarrow> d
      | Some crd \<Rightarrow>
          (case querySelector (Cls ''product-price'') crd of
             None \<Rightarrow> d
           | Some priceEl \<Rightarrow>
               (if querySelector (Cls ''customer-discount-info'') crd \<noteq> None then d
                else put (After (nid priceEl)) (discount_info tr (fresh d) discount) d)))"

definition discounts_callback ::
  "(string \<Rightarrow> string) \<Rightarrow> nat \<Rightarrow> string list \<Rightarrow> (string \<Rightarrow> int) option \<Rightarrow> node \<Rightarrow> node" where
  "discounts_callback tr listing itemCodes message d =
     (case message of
        None \<Rightarrow> d
      | Some discounts \<Rightarrow>
          fold (\<lambda>code d1.
                  if discounts code = 0 then d1
                  else fold (inject_discount tr (discounts code)) (targets code listing d1) d1)
            itemCodes d)"

definition injectConsumerDiscount ::
  "(string \<Rightarrow> string) \<Rightarrow> (string \<Rightarrow> int) option \<Rightarrow> nat \<Rightarrow> node \<Rightarrow> node" where
  "injectConsumerDiscount tr message listing d =
     discounts_callback tr listing (harvest listing d) message d"

section \<open>\<open>injectBadges\<close>\<close>

record badge =
  badge_type :: "string option"

definition lower :: "char \<Rightarrow> char" where
  "lower c = (if in_range (CHR ''A'') (CHR ''Z'') c then char_of (of_char c + (32::nat)) else c)"

definition slug_char :: "char \<Rightarrow> bool" where
  "slug_char c = (in_range (CHR ''a'') (CHR ''z'') c \<or> in_range (CHR ''0'') (CHR ''9'') c)"

text \<open>\<open>replace(/[^a-z0-9]+/g, "-")\<close>: \<open>in_run\<close> says that the run has its hyphen already.\<close>

fun dashes :: "bool \<Rightarrow> string \<Rightarrow> string" where
  "dashes in_run [] = []"
| "dashes in_run (c # cs) =
     (if slug_char c then c # dashes False cs
      else if in_run then dashes True cs
      else CHR ''-'' # dashes True cs)"

definition slug :: "string \<Rightarrow> string" where
  "slug type = dashes False (map lower type)"

definition badge_span :: "nat \<Rightarrow> badge \<Rightarrow> node" where
  "badge_span i b =
     (let type = (case badge_type b of None \<Rightarrow> [] | Some t \<Rightarrow> t)
      in Node i ''span'' [''ce-badge'', ''ce-badge-'' @ slug type] None type [])"

fun badge_spans :: "nat \<Rightarrow> badge list \<Rightarrow> node list" where
  "badge_spans i [] = []"
| "badge_spans i (b # bs) = badge_span i b # badge_spans (Suc i) bs"

definition badge_container :: "nat \<Rightarrow> badge list \<Rightarrow> node" where
  "badge_container b badges =
     Node b ''div'' [''ce-badges''] None [] (badge_spans (b + 1) badges)"

definition first_of :: "'a option \<Rightarrow> 'a option \<Rightarrow> 'a option" where
  "first_of x y = (case x of Some v \<Rightarrow> Some v | None \<Rightarrow> y)"

definition badge_card :: "nat \<Rightarrow> node \<Rightarrow> node option" where
  "badge_card el d =
     first_of (closest (Cls ''card'') el d)
       (first_of (closest (Cls ''item-card'') el d) (closest (Cls ''list-row'') el d))"

definition title_sel :: sel where
  "title_sel = Or (Tag ''a'') (Or (Tag ''h4'') (Tag ''h5''))"

definition title_of :: "node \<Rightarrow> node option" where
  "title_of cardBody =
     first_of (querySelector (Cls ''product-title'') cardBody) (querySelector title_sel cardBody)"

definition card_body :: "node \<Rightarrow> node" where
  "card_body crd =
     (case querySelector (Cls ''card-body'') crd of Some body \<Rightarrow> body | None \<Rightarrow> crd)"

definition inject_badge :: "badge list \<Rightarrow> nat \<Rightarrow> node \<Rightarrow> node" where
  "inject_badge badges el d =
     (case badge_card el d of
        None \<Rightarrow> d
      | Some crd \<Rightarrow>
          (let cardBody = card_body crd
           in if querySelector (Cls ''ce-badges'') cardBody \<noteq> None then d
              else (case title_of cardBody of
                      Some titleEl \<Rightarrow>
                        put (After (nid titleEl)) (badge_container (fresh d) badges) d
                    | None \<Rightarrow>
                        put (FirstIn (nid cardBody)) (badge_container (fresh d) badges) d)))"

definition badges_callback ::
  "nat \<Rightarrow> string list \<Rightarrow> (string \<Rightarrow> badge list) option \<Rightarrow> node \<Rightarrow> node" where
  "badges_callback listing itemCodes message d =
     (case message of
        None \<Rightarrow> d
      | Some mapping \<Rightarrow>
          fold (\<lambda>code d1.
                  if mapping code = [] then d1
                  else fold (inject_badge (mapping code)) (targets code listing d1) d1)
            itemCodes d)"

definition injectBadges :: "(string \<Rightarrow> badge list) option \<Rightarrow> nat \<Rightarrow> node \<Rightarrow> node" where
  "injectBadges message listing d = badges_callback listing (harvest listing d) message d"


section \<open>Observations on a tree, and two small pages\<close>

text \<open>
  The node that follows the node of identity \<open>a\<close> among the children of its parent,
  and the first child of the node of identity \<open>c\<close>.
\<close>

fun next_sibling :: "nat \<Rightarrow> node \<Rightarrow> node option"
  and next_in :: "nat \<Rightarrow> node list \<Rightarrow> node option" where
  "next_sibling a (Node i tg cs c x ks) = next_in a ks"
| "next_in a [] = None"
| "next_in a (k # ks) =
     (if nid k = a then (case ks of [] \<Rightarrow> None | k' # ks' \<Rightarrow> Some k')
      else (case next_sibling a k of
              Some r \<Rightarrow> Some r
            | None \<Rightarrow> next_in a ks))"

definition first_child :: "nat \<Rightarrow> node \<Rightarrow> node option" where
  "first_child c d =
     (case element c d of
        None \<Rightarrow> None
      | Some n \<Rightarrow> (case kids n of [] \<Rightarrow> None | k # ks \<Rightarrow> Some k))"

text \<open>
  A listing (identity 1) with one card for \<open>ITEM-1\<close>: once with a title and a price,
  once with neither.
\<close>

definition page_priced :: node where
  "page_priced =
     Node 0 ''body'' [] None []
       [Node 1 ''div'' [] None []
          [Node 2 ''div'' [''card''] None []
             [Node 3 ''h4'' [''product-title''] None [] [],
              Node 4 ''div'' [''product-price''] None [] [],
              Node 5 ''button'' [''btn-add-to-cart-list''] (Some ''ITEM-1'') [] []]]]"

definition page_bare :: node where
  "page_bare =
     Node 0 ''body'' [] None []
       [Node 1 ''div'' [] None []
          [Node 2 ''div'' [''card''] None []
             [Node 3 ''img'' [] None [] [],
              Node 4 ''button'' [''btn-add-to-cart-list''] (Some ''ITEM-1'') [] []]]]"

definition one_offer :: "string \<Rightarrow> offer list" where
  "one_offer code = [\<lparr>offer_title = Some ''10% off'', offer_subtitle = None\<rparr>]"

definition one_badge :: "string \<Rightarrow> badge list" where
  "one_badge code = [\<lparr>badge_type = Some ''New''\<rparr>]"

text \<open>A listing with two cards for \<open>ITEM-1\<close>, the first with two elements that carry the code.\<close>

definition page_two :: node where
  "page_two =
     Node 0 ''body'' [] None []
       [Node 1 ''div'' [] None []
          [Node 2 ''div'' [''card''] None []
             [Node 3 ''div'' [''product-price''] None [] [],
              Node 4 ''a'' [] (Some ''ITEM-1'') [] [],
              Node 5 ''button'' [''btn-add-to-cart-list''] (Some ''ITEM-1'') [] []],
           Node 6 ''div'' [''card''] None []
             [Node 7 ''div'' [''product-price''] None [] [],
              Node 8 ''button'' [''btn-add-to-cart-list''] (Some ''ITEM-1'') [] []]]]"

section \<open>Notions for the proofs about the injection scripts\<close>

text \<open>
  A selector that matches no node of a subtree; the nodes the scripts build, which carry
  no item code and none of the classes by which the scripts find cards and prices; one
  insertion of such a subtree with new identities; the loop over the harvested codes that
  the three callbacks share; and, for each script, the condition under which its step for
  an element returns without inserting.
\<close>

definition free_of :: "sel \<Rightarrow> node \<Rightarrow> bool" where
  "free_of s w = (\<forall>n \<in> set (w # desc w). \<not> matches s n)"

definition plain :: "node \<Rightarrow> bool" where
  "plain n =
     (item_code n = None
      \<and> list_all (\<lambda>c. c \<notin> set [''product-price'', ''item-card'', ''card'', ''list-row'',
                                   ''card-body'']) (classes n))"

definition inert :: "node \<Rightarrow> bool" where
  "inert w = list_all plain (w # desc w)"

definition grow :: "node \<Rightarrow> node \<Rightarrow> bool" where
  "grow d d' = (\<exists>p w. d' = put p w d \<and> inert w \<and> (\<forall>i \<in> set (ids w). fresh d \<le> i))"

definition per_code :: "(string \<Rightarrow> bool) \<Rightarrow> (string \<Rightarrow> nat \<Rightarrow> node \<Rightarrow> node) \<Rightarrow> nat
    \<Rightarrow> string \<Rightarrow> node \<Rightarrow> node" where
  "per_code skip stc l code d1 =
     (if skip code then d1 else fold (stc code) (targets code l d1) d1)"

definition sync_loop :: "(string \<Rightarrow> bool) \<Rightarrow> (string \<Rightarrow> nat \<Rightarrow> node \<Rightarrow> node) \<Rightarrow> nat
    \<Rightarrow> node \<Rightarrow> node" where
  "sync_loop skip stc l d = fold (per_code skip stc l) (harvest l d) d"

definition blocked_offer :: "nat \<Rightarrow> node \<Rightarrow> bool" where
  "blocked_offer el d =
     (case closest card_sel el d of
        None \<Rightarrow> True
      | Some crd \<Rightarrow>
          querySelector (Cls ''offer-container'') crd \<noteq> None
          \<or> querySelector (Cls ''product-price'') crd = None)"

definition blocked_discount :: "nat \<Rightarrow> node \<Rightarrow> bool" where
  "blocked_discount btn d =
     (case closest card_sel btn d of
        None \<Rightarrow> True
      | Some crd \<Rightarrow>
          querySelector (Cls ''product-price'') crd = None
          \<or> querySelector (Cls ''customer-discount-info'') crd \<noteq> None)"

definition blocked_badge :: "nat \<Rightarrow> node \<Rightarrow> bool" where
  "blocked_badge el d =
     (case badge_card el d of
        None \<Rightarrow> True
      | Some crd \<Rightarrow> querySelector (Cls ''ce-badges'') (card_body crd) \<noteq> None)"

text \<open>How many nodes of a list a selector matches.\<close>

definition count :: "sel \<Rightarrow> node list \<Rightarrow> nat" where
  "count s xs = length (filter (matches s) xs)"

section \<open>Properties of the facet state\<close>

lemma map_of_obj_set_same: "map_of (obj_set k v kvs) k = Some v"
  by (induction kvs) auto

lemma map_of_obj_set_other: "k' \<noteq> k \<Longrightarrow> map_of (obj_set k v kvs) k' = map_of kvs k'"
  by (induction kvs) auto

lemma map_of_obj_delete_other: "k' \<noteq> k \<Longrightarrow> map_of (obj_delete k kvs) k' = map_of kvs k'"
  by (induction kvs) (auto simp: obj_delete_def)

lemma map_of_obj_delete_same: "map_of (obj_delete k kvs) k = None"
  by (induction kvs) (auto simp: obj_delete_def)

lemma obj_set_obj_set: "obj_set k v' (obj_set k v kvs) = obj_set k v' kvs"
  by (induction kvs) auto

lemma obj_set_same: "map_of kvs k = Some v \<Longrightarrow> obj_set k v kvs = kvs"
  by (induction kvs) (auto split: if_splits)

lemma obj_delete_obj_set: "obj_delete k (obj_set k v kvs) = obj_delete k kvs"
  by (induction kvs) (auto simp: obj_delete_def)

lemma obj_delete_absent: "map_of kvs k = None \<Longrightarrow> obj_delete k kvs = kvs"
  by (induction kvs) (auto simp: obj_delete_def split: if_splits)

lemma existing_values_obj_set:
  "existing_values (obj_set k (JArr (map JStr ys)) kvs) k = ys"
  by (simp add: existing_values_def map_of_obj_set_same comp_def)

lemma JStr_js_String: "list_all is_JStr xs \<Longrightarrow> map JStr (map js_String xs) = xs"
proof (induction xs)
  case Nil
  then show ?case by simp
next
  case (Cons x xs)
  then show ?case by (cases x) simp_all
qed

lemma string_lists_lookup:
  "string_lists kvs \<Longrightarrow> map_of kvs k = Some v \<Longrightarrow> string_list v"
  by (auto simp: string_lists_def list_all_iff dest!: map_of_SomeD)

lemma string_list_existing:
  assumes "string_lists kvs" and "map_of kvs k = Some v"
  shows "v = JArr (map JStr (existing_values kvs k))"
proof -
  from assms have "string_list v" by (rule string_lists_lookup)
  then obtain xs where v: "v = JArr xs" and xs: "list_all is_JStr xs"
    by (cases v) (simp_all add: string_list_def)
  from assms(2) v have "existing_values kvs k = map js_String xs"
    by (simp add: existing_values_def)
  with xs v show ?thesis using JStr_js_String [of xs] by simp
qed

lemma string_lists_obj_set:
  "string_lists kvs \<Longrightarrow> string_list v \<Longrightarrow> string_lists (obj_set k v kvs)"
  by (induction kvs) (auto simp: string_lists_def)

lemma string_lists_obj_delete: "string_lists kvs \<Longrightarrow> string_lists (obj_delete k kvs)"
  by (simp add: string_lists_def obj_delete_def list_all_iff)

lemma string_list_JStr: "string_list (JArr (map JStr ys))"
  by (simp add: string_list_def list_all_iff)

text \<open>
  C7, as amended.  When the value is not yet among the values of the filter name, switching
  it on and then off gives the state back; the one change is that a name whose list was
  empty is removed.  The state maps its names to lists of strings.
\<close>

theorem toggle_on_then_off:
  assumes typed: "string_lists ff"
      and absent: "value_str fv \<notin> set (existing_values ff name)"
  shows "toggleValue (toggleValue ff name fv True) name fv False =
           (if existing_values ff name = [] then obj_delete name ff else ff)"
proof -
  let ?v = "value_str fv"
  let ?xs = "existing_values ff name"
  have flt: "filter (\<lambda>x. x \<noteq> ?v) ?xs = ?xs"
    using absent by (auto simp: filter_id_conv)
  have on: "toggleValue ff name fv True = obj_set name (JArr (map JStr (?xs @ [?v]))) ff"
    using absent by (simp add: toggleValue_def next_values_def)
  have off: "toggleValue (obj_set name (JArr (map JStr (?xs @ [?v]))) ff) name fv False =
      (if ?xs = [] then obj_delete name ff else obj_set name (JArr (map JStr ?xs)) ff)"
    using flt
    by (simp add: toggleValue_def existing_values_obj_set next_values_def
        obj_delete_obj_set obj_set_obj_set Let_def del: map_append)
  have restore: "obj_set name (JArr (map JStr ?xs)) ff = ff" if ne: "?xs \<noteq> []"
  proof -
    from ne obtain v where v: "map_of ff name = Some v"
      by (cases "map_of ff name") (auto simp: existing_values_def)
    with typed have "v = JArr (map JStr ?xs)" by (rule string_list_existing)
    with v show ?thesis by (simp add: obj_set_same)
  qed
  show ?thesis using on off restore by simp
qed

theorem toggle_on_then_off_witness:
  "toggleValue (toggleValue [(''badges'', JArr [JStr ''NEW''])] ''badges'' (Some ''SALE'') True)
       ''badges'' (Some ''SALE'') False
     = [(''badges'', JArr [JStr ''NEW''])]"
  using toggle_on_then_off [of "[(''badges'', JArr [JStr ''NEW''])]" "Some ''SALE''" "''badges''"]
  by (simp add: string_lists_def string_list_def existing_values_def value_str_def)

theorem toggle_selected_value_counterexample:
  "toggleValue (toggleValue [(''badges'', JArr [JStr ''NEW''])] ''badges'' (Some ''NEW'') True)
       ''badges'' (Some ''NEW'') False
     = [] \<and>
   obj_delete ''badges'' [(''badges'', JArr [JStr ''NEW''])] = [] \<and>
   existing_values [(''badges'', JArr [JStr ''NEW''])] ''badges'' = [''NEW'']"
  by (simp add: toggleValue_def existing_values_def next_values_def value_str_def obj_delete_def)

lemma toggleValue_lookup:
  "map_of (toggleValue ff name fv checked) name =
     (if next_values (existing_values ff name) (value_str fv) checked = [] then None
      else Some (JArr (map JStr (next_values (existing_values ff name) (value_str fv) checked))))"
  by (simp add: toggleValue_def Let_def map_of_obj_set_same map_of_obj_delete_same)

lemma toggleValue_other:
  "k \<noteq> name \<Longrightarrow> map_of (toggleValue ff name fv checked) k = map_of ff k"
  by (simp add: toggleValue_def Let_def map_of_obj_set_other map_of_obj_delete_other)

lemma price_bounds_other:
  "k \<noteq> ''price_from'' \<Longrightarrow> k \<noteq> ''price_to'' \<Longrightarrow>
     map_of (price_bounds fromValue toValue ff) k = map_of ff k"
  by (simp add: price_bounds_def set_bound_def map_of_obj_set_other map_of_obj_delete_other
      split: option.splits)

text \<open>
  C8, as amended.  \<open>applyFieldFilterChange\<close> compares values as strings: the values it
  finds under the filter name go through \<open>String\<close>, and the list it writes back under
  that name holds strings only.  \<open>applyPriceFilter\<close> writes \<open>price_from\<close> and
  \<open>price_to\<close> as one-element lists that hold the number itself.  Either handler leaves
  the lists of the other filter names as parsed.
\<close>

theorem written_filter_values:
  "(map_of (toggleValue ff name fv checked) name = None
      \<or> map_of (toggleValue ff name fv checked) name
          = Some (JArr (map JStr (next_values (map js_String
                (case map_of ff name of Some (JArr xs) \<Rightarrow> xs | _ \<Rightarrow> [])) (value_str fv) checked))))
 \<and> (k \<noteq> name \<longrightarrow> map_of (toggleValue ff name fv checked) k = map_of ff k)
 \<and> map_of (price_bounds (Some lo) (Some hi) ff) ''price_from'' = Some (JArr [JNum lo])
 \<and> map_of (price_bounds (Some lo) (Some hi) ff) ''price_to'' = Some (JArr [JNum hi])
 \<and> (k \<noteq> ''price_from'' \<and> k \<noteq> ''price_to'' \<longrightarrow>
       map_of (price_bounds fromValue toValue ff) k = map_of ff k)"
proof -
  have ex: "existing_values ff name =
      map js_String (case map_of ff name of Some (JArr xs) \<Rightarrow> xs | _ \<Rightarrow> [])"
    by (simp add: existing_values_def split: option.splits json.splits)
  have t: "map_of (toggleValue ff name fv checked) name = None
      \<or> map_of (toggleValue ff name fv checked) name
          = Some (JArr (map JStr (next_values (existing_values ff name) (value_str fv) checked)))"
    by (simp add: toggleValue_lookup)
  have p1: "map_of (price_bounds (Some lo) (Some hi) ff) ''price_from'' = Some (JArr [JNum lo])"
    by (simp add: price_bounds_def set_bound_def map_of_obj_set_same map_of_obj_set_other)
  have p2: "map_of (price_bounds (Some lo) (Some hi) ff) ''price_to'' = Some (JArr [JNum hi])"
    by (simp add: price_bounds_def set_bound_def map_of_obj_set_same)
  from t ex p1 p2 show ?thesis
    by (simp add: toggleValue_other price_bounds_other)
qed

theorem written_filter_values_witness:
  "map_of (toggleValue [(''badges'', JArr [JStr ''NEW'']), (''price_from'', JArr [JNum 5])]
       ''badges'' (Some ''SALE'') True) ''badges''
     = Some (JArr [JStr ''NEW'', JStr ''SALE''])
 \<and> map_of (toggleValue [(''badges'', JArr [JStr ''NEW'']), (''price_from'', JArr [JNum 5])]
       ''badges'' (Some ''SALE'') True) ''price_from''
     = Some (JArr [JNum 5])
 \<and> map_of (price_bounds (Some 100) (Some 500)
       [(''badges'', JArr [JStr ''NEW'']), (''price_from'', JArr [JNum 5])]) ''price_from''
     = Some (JArr [JNum 100])
 \<and> map_of (price_bounds (Some 100) (Some 500)
       [(''badges'', JArr [JStr ''NEW'']), (''price_from'', JArr [JNum 5])]) ''badges''
     = Some (JArr [JStr ''NEW''])"
proof -
  let ?ff = "[(''badges'', JArr [JStr ''NEW'']), (''price_from'', JArr [JNum 5])]"
  note a = written_filter_values
    [of ?ff "''badges''" "Some ''SALE''" True "''price_from''" 100 500 "Some 100" "Some 500"]
  note b = written_filter_values
    [of ?ff "''badges''" "Some ''SALE''" True "''badges''" 100 500 "Some 100" "Some 500"]
  have n: "map_of (toggleValue ?ff ''badges'' (Some ''SALE'') True) ''badges'' \<noteq> None"
    by (simp add: toggleValue_def existing_values_def next_values_def value_str_def)
  from a n have 1: "map_of (toggleValue ?ff ''badges'' (Some ''SALE'') True) ''badges''
     = Some (JArr [JStr ''NEW'', JStr ''SALE''])"
    by (simp add: next_values_def value_str_def)
  from a have 2: "map_of (toggleValue ?ff ''badges'' (Some ''SALE'') True) ''price_from''
     = Some (JArr [JNum 5])"
    by simp
  from a have 3: "map_of (price_bounds (Some 100) (Some 500) ?ff) ''price_from''
     = Some (JArr [JNum 100])"
    by simp
  from b have 4: "map_of (price_bounds (Some 100) (Some 500) ?ff) ''badges''
     = Some (JArr [JStr ''NEW''])"
    by simp
  from 1 2 3 4 show ?thesis by blast
qed

theorem price_filter_writes_numbers_counterexample:
  \<open>applyPriceFilter (Some 100) (Some 500) []
     = Some [(''field_filters'', ''{"price_from":[100],"price_to":[500]}''),
             (''from_filters'', ''1'')]
   \<and> price_bounds (Some 100) (Some 500) []
     = [(''price_from'', JArr [JNum 100]), (''price_to'', JArr [JNum 500])]
   \<and> string_lists (price_bounds (Some 100) (Some 500) []) = False\<close>
  by code_simp

section \<open>Round trip of the facet state through the query string\<close>

subsection \<open>String literals\<close>

lemma hex_val_hex_char: "d < 16 \<Longrightarrow> hex_val (hex_char d) = Some d"
  by (simp add: hex_val_def hex_char_def digit_char_def is_digit_def digit_val_def in_range_def)

lemma unicode_escape_low:
  assumes "(of_char c :: nat) < 32"
  shows "unicode_escape (CHR ''0'') (CHR ''0'')
            (hex_char (of_char c div 16)) (hex_char (of_char c mod 16)) = Some c"
proof -
  have h0: "hex_val (CHR ''0'') = Some 0"
    by (simp add: hex_val_def is_digit_def digit_val_def)
  have "(of_char c :: nat) div 16 < 16" using assms by simp
  then have h1: "hex_val (hex_char (of_char c div 16)) = Some (of_char c div 16)"
    by (rule hex_val_hex_char)
  have h2: "hex_val (hex_char (of_char c mod 16)) = Some (of_char c mod 16)"
    by (rule hex_val_hex_char) simp
  show ?thesis by (simp add: unicode_escape_def h0 h1 h2)
qed

lemma parse_chars_esc: "parse_chars (esc_char c @ cs) = cons_result c (parse_chars cs)"
proof -
  consider "c = dq" | "c = bsl" | "c = CHR 0x08" | "c = CHR 0x09" | "c = CHR 0x0A"
    | "c = CHR 0x0C" | "c = CHR 0x0D"
    | "c \<noteq> dq" "c \<noteq> bsl" "c \<noteq> CHR 0x08" "c \<noteq> CHR 0x09" "c \<noteq> CHR 0x0A"
      "c \<noteq> CHR 0x0C" "c \<noteq> CHR 0x0D" "(of_char c :: nat) < 32"
    | "c \<noteq> dq" "c \<noteq> bsl" "\<not> (of_char c :: nat) < 32"
    by (cases "(of_char c :: nat) < 32") auto
  then show ?thesis
  proof cases
    case 8
    then show ?thesis
      by (simp add: esc_char_def unicode_escape_low dq_def bsl_def)
  next
    case 9
    then have "esc_char c = [c]"
      by (auto simp: esc_char_def)
    with 9 show ?thesis by simp
  qed (simp_all add: esc_char_def unescape_def dq_def bsl_def)
qed

lemma parse_chars_quoted:
  "parse_chars (concat (map esc_char s) @ dq # rest) = Some (s, rest)"
  by (induction s) (simp_all add: parse_chars_esc cons_result_def)

lemma quote_starts: "quote s @ rest = dq # concat (map esc_char s) @ dq # rest"
  by (simp add: quote_def)


subsection \<open>Numbers\<close>

lemma of_char_digit_char: "d < 10 \<Longrightarrow> (of_char (digit_char d) :: nat) = 48 + d"
  by (simp add: digit_char_def)

lemma char_neqI: "(of_char a :: nat) \<noteq> of_char b \<Longrightarrow> a \<noteq> b"
  by auto

lemma digit_char_props:
  assumes "d < 10"
  shows "is_digit (digit_char d)" and "digit_val (digit_char d) = d"
    and "digit_char d = CHR ''0'' \<longleftrightarrow> d = 0"
proof -
  show "is_digit (digit_char d)" "digit_val (digit_char d) = d"
    using assms by (simp_all add: is_digit_def digit_val_def of_char_digit_char)
  have "digit_char d = CHR ''0'' \<longleftrightarrow> (of_char (digit_char d) :: nat) = of_char (CHR ''0'')"
    by (simp only: of_char_eq_iff)
  also have "\<dots> \<longleftrightarrow> d = 0"
    using assms by (simp add: of_char_digit_char)
  finally show "digit_char d = CHR ''0'' \<longleftrightarrow> d = 0" .
qed

lemma dec_nat_digits: "list_all is_digit (dec_nat n)"
  by (induction n rule: dec_nat.induct)
    (subst dec_nat.simps, simp add: digit_char_props)

lemma dec_nat_nonempty: "dec_nat n \<noteq> []"
  by (subst dec_nat.simps) simp

lemma digits_val_snoc: "digits_val (ds @ [c]) = 10 * digits_val ds + digit_val c"
  by (simp add: digits_val_def)

lemma digits_val_dec_nat: "digits_val (dec_nat n) = n"
proof (induction n rule: dec_nat.induct)
  case (1 n)
  show ?case
  proof (cases "n < 10")
    case True
    then show ?thesis
      by (subst dec_nat.simps) (simp add: digits_val_def digit_char_props)
  next
    case False
    with 1 have "digits_val (dec_nat (n div 10)) = n div 10" by simp
    with False show ?thesis
      by (subst dec_nat.simps) (simp add: digits_val_snoc digit_char_props)
  qed
qed

lemma hd_dec_nat_zero: "hd (dec_nat n) = CHR ''0'' \<Longrightarrow> n = 0"
proof (induction n rule: dec_nat.induct)
  case (1 n)
  show ?case
  proof (cases "n < 10")
    case True
    with "1.prems" show ?thesis
      by (subst (asm) dec_nat.simps) (simp add: digit_char_props)
  next
    case False
    with "1.prems" have "hd (dec_nat (n div 10)) = CHR ''0''"
      by (subst (asm) dec_nat.simps) (simp add: dec_nat_nonempty)
    with 1 False have "n div 10 = 0" by simp
    with False show ?thesis by simp
  qed
qed

lemma dec_nat_zero: "dec_nat 0 = ''0''"
  by code_simp

lemma delim_not_digit: "delim rest \<Longrightarrow> rest = [] \<or> \<not> is_digit (hd rest)"
  by (cases rest) (auto simp: delim_def is_digit_def)

lemma parse_digits_dec_nat:
  assumes "delim rest"
  shows "parse_digits (dec_nat n @ rest) = Some (n, rest)"
proof -
  from assms have nd: "rest = [] \<or> \<not> is_digit (hd rest)" by (rule delim_not_digit)
  have all: "\<forall>c \<in> set (dec_nat n). is_digit c"
    using dec_nat_digits [of n] by (simp add: list_all_iff)
  have tk: "takeWhile is_digit (dec_nat n @ rest) = dec_nat n"
    using nd all by (cases rest) simp_all
  have dr: "dropWhile is_digit (dec_nat n @ rest) = rest"
    using nd all by (cases rest) simp_all
  have lead: "\<not> (hd (dec_nat n) = CHR ''0'' \<and> length (dec_nat n) > 1)"
    using hd_dec_nat_zero [of n] by (auto simp: dec_nat_zero)
  have nofrac: "\<not> (rest \<noteq> [] \<and> hd rest \<in> {CHR ''.'', CHR ''e'', CHR ''E''})"
    using assms by (cases rest) (auto simp: delim_def)
  show ?thesis
    using lead nofrac
    by (simp add: parse_digits_def Let_def tk dr dec_nat_nonempty digits_val_dec_nat)
qed

lemma hd_dec_nat_digit: "\<exists>c cs. dec_nat n = c # cs \<and> is_digit c"
  using dec_nat_digits [of n] dec_nat_nonempty [of n] by (cases "dec_nat n") simp_all

lemma parse_number_dec_int:
  assumes "delim rest"
  shows "parse_number (dec_int i @ rest) = Some (JNum i, rest)"
proof (cases "i < 0")
  case True
  then show ?thesis
    by (simp add: parse_number_def dec_int_def parse_digits_dec_nat [OF assms])
next
  case False
  obtain c cs where d: "dec_nat (nat i) = c # cs" and c: "is_digit c"
    using hd_dec_nat_digit by blast
  from c have "c \<noteq> CHR ''-''" by (auto simp: is_digit_def)
  with False d parse_digits_dec_nat [OF assms, of "nat i"] show ?thesis
    by (simp add: parse_number_def dec_int_def)
qed

lemma dec_int_start: "\<exists>c cs. dec_int i = c # cs \<and> (is_digit c \<or> c = CHR ''-'')"
  using hd_dec_nat_digit [of "nat i"] hd_dec_nat_digit [of "nat (- i)"]
  by (auto simp: dec_int_def)

lemma parse_literal_dec_int:
  assumes "delim rest"
  shows "parse_literal (dec_int i @ rest) = Some (JNum i, rest)"
proof -
  obtain c cs where d: "dec_int i = c # cs" and c: "is_digit c \<or> c = CHR ''-''"
    using dec_int_start by blast
  from c have "c \<noteq> CHR ''n''" "c \<noteq> CHR ''t''" "c \<noteq> CHR ''f''"
    by (auto simp: is_digit_def)
  then have "take 4 (dec_int i @ rest) \<noteq> ''null''" "take 4 (dec_int i @ rest) \<noteq> ''true''"
    "take 5 (dec_int i @ rest) \<noteq> ''false''"
    using d by (auto simp: take_Cons')
  then show ?thesis
    using parse_number_dec_int [OF assms, of i] by (simp add: parse_literal_def)
qed


subsection \<open>Values\<close>

lemma skip_ws_token: "\<not> is_ws c \<Longrightarrow> skip_ws (c # cs) = c # cs"
  by simp

lemma digit_token: "is_digit c \<Longrightarrow> token_start c"
  by (auto simp: is_digit_def token_start_def is_ws_def)

lemma value_first: "\<exists>c cs. JSON_stringify v = c # cs \<and> token_start c"
proof (cases v)
  case (JNum i)
  with dec_int_start [of i] show ?thesis
    by (auto simp: digit_token) (simp add: token_start_def is_ws_def)
qed (auto simp: token_start_def is_ws_def quote_def dq_def)

lemma elems_first: "xs \<noteq> [] \<Longrightarrow> \<exists>c cs. stringify_elems xs = c # cs \<and> token_start c"
proof (cases xs)
  case Nil
  assume "xs \<noteq> []"
  with Nil show ?thesis by simp
next
  case (Cons x ys)
  obtain c cs where "JSON_stringify x = c # cs" "token_start c"
    using value_first by blast
  with Cons show ?thesis by (cases ys) auto
qed

lemma members_first: "kvs \<noteq> [] \<Longrightarrow> \<exists>cs. stringify_members kvs = dq # cs"
proof (cases kvs)
  case Nil
  assume "kvs \<noteq> []"
  with Nil show ?thesis by simp
next
  case (Cons kv ys)
  then show ?thesis by (cases kv; cases ys) (auto simp: quote_def)
qed

lemma need_v_pos: "0 < need_v v"
  by (cases v) simp_all

lemma parse_value_scalar:
  assumes "delim rest"
  shows "parse_value (Suc f) (''null'' @ rest) = Some (JNull, rest)"
    and "parse_value (Suc f) (''true'' @ rest) = Some (JBool True, rest)"
    and "parse_value (Suc f) (''false'' @ rest) = Some (JBool False, rest)"
    and "parse_value (Suc f) (quote s @ rest) = Some (JStr s, rest)"
  by (simp_all add: is_ws_def dq_def parse_literal_def quote_def
      parse_chars_quoted [unfolded dq_def])

lemma parse_value_number:
  assumes "delim rest"
  shows "parse_value (Suc f) (dec_int i @ rest) = Some (JNum i, rest)"
proof -
  obtain c cs where d: "dec_int i = c # cs" and c: "is_digit c \<or> c = CHR ''-''"
    using dec_int_start by blast
  from c have nc: "\<not> is_ws c" "c \<noteq> CHR ''[''" "c \<noteq> CHR ''{''" "c \<noteq> dq"
    by (auto simp: is_digit_def is_ws_def dq_def)
  have "parse_value (Suc f) (c # cs @ rest) = parse_literal (c # cs @ rest)"
    using nc by simp
  with d parse_literal_dec_int [OF assms, of i] show ?thesis by simp
qed


lemma delim_simps [simp]:
  "delim []" "delim (CHR '','' # cs)" "delim (CHR '']'' # cs)" "delim (CHR ''}'' # cs)"
  by (simp_all add: delim_def)

lemma obj_set_fresh: "k \<notin> fst ` set acc \<Longrightarrow> obj_set k v acc = acc @ [(k, v)]"
  by (induction acc) auto

lemma foldl_obj_set_distinct:
  "distinct (map fst (acc @ kvs)) \<Longrightarrow>
     foldl (\<lambda>acc kv. obj_set (fst kv) (snd kv) acc) acc kvs = acc @ kvs"
proof (induction kvs arbitrary: acc)
  case Nil
  then show ?case by simp
next
  case (Cons kv kvs)
  then have "fst kv \<notin> fst ` set acc" by auto
  then have "obj_set (fst kv) (snd kv) acc = acc @ [kv]"
    by (simp add: obj_set_fresh)
  moreover from Cons.prems have "distinct (map fst ((acc @ [kv]) @ kvs))" by simp
  ultimately show ?case using Cons.IH [of "acc @ [kv]"] by simp
qed

lemma build_object_distinct: "distinct (map fst kvs) \<Longrightarrow> build_object kvs = JObj kvs"
  using foldl_obj_set_distinct [of "[]" kvs] by (simp add: build_object_def)

lemma parse_roundtrip:
  "need_v v \<le> f \<Longrightarrow> delim rest \<Longrightarrow> wf_json v \<Longrightarrow>
     parse_value f (JSON_stringify v @ rest) = Some (v, rest)"
  "xs \<noteq> [] \<Longrightarrow> need_es xs \<le> f \<Longrightarrow> wf_elems xs \<Longrightarrow>
     parse_elems f (stringify_elems xs @ CHR '']'' # rest) = Some (xs, rest)"
  "kvs \<noteq> [] \<Longrightarrow> need_ms kvs \<le> f \<Longrightarrow> wf_members kvs \<Longrightarrow>
     parse_members f (stringify_members kvs @ CHR ''}'' # rest) = Some (kvs, rest)"
proof (induction v and xs and kvs arbitrary: f rest and f rest and f rest
    rule: JSON_stringify_stringify_elems_stringify_members.induct)
  case 1
  then obtain f' where "f = Suc f'" by (cases f) auto
  with 1 show ?case using parse_value_scalar(1) by simp
next
  case (2 b)
  then obtain f' where "f = Suc f'" by (cases f) auto
  with 2 show ?case using parse_value_scalar(2,3) by simp
next
  case (3 n)
  then obtain f' where "f = Suc f'" by (cases f) auto
  with 3 show ?case using parse_value_number by simp
next
  case (4 s)
  then obtain f' where "f = Suc f'" by (cases f) auto
  with 4 show ?case using parse_value_scalar(4) by simp
next
  case (5 xs)
  then obtain f' where f: "f = Suc f'" and n: "need_es xs \<le> f'" by (cases f) auto
  show ?case
  proof (cases "xs = []")
    case True
    with f show ?thesis by (simp add: is_ws_def)
  next
    case False
    then obtain c cs where c: "stringify_elems xs = c # cs" "token_start c"
      using elems_first by blast
    from False n "5.prems" have
      "parse_elems f' (stringify_elems xs @ CHR '']'' # rest) = Some (xs, rest)"
      by (intro "5.IH") simp_all
    with c f show ?thesis by (simp add: is_ws_def token_start_def)
  qed
next
  case (6 kvs)
  then obtain f' where f: "f = Suc f'" and n: "need_ms kvs \<le> f'" by (cases f) auto
  show ?case
  proof (cases "kvs = []")
    case True
    with f show ?thesis by (simp add: is_ws_def)
  next
    case False
    then obtain cs where c: "stringify_members kvs = dq # cs"
      using members_first by blast
    from False n "6.prems" have
      "parse_members f' (stringify_members kvs @ CHR ''}'' # rest) = Some (kvs, rest)"
      by (intro "6.IH") simp_all
    moreover from "6.prems" have "build_object kvs = JObj kvs"
      by (simp add: build_object_distinct)
    ultimately show ?thesis using c f by (simp add: is_ws_def dq_def)
  qed
next
  case 7
  then show ?case by simp
next
  case (8 x)
  then obtain f' where f: "f = Suc f'" and n: "need_v x \<le> f'" by (cases f) auto
  from n "8.prems" have "parse_value f' (JSON_stringify x @ CHR '']'' # rest)
      = Some (x, CHR '']'' # rest)"
    by (intro "8.IH") simp_all
  with f show ?case by (simp add: is_ws_def)
next
  case (9 x y ys)
  then obtain f' where f: "f = Suc f'" and n: "need_v x \<le> f'" "need_es (y # ys) \<le> f'"
    by (cases f) auto
  from n "9.prems" have "parse_value f' (JSON_stringify x @ CHR '','' # stringify_elems (y # ys) @ CHR '']'' # rest)
      = Some (x, CHR '','' # stringify_elems (y # ys) @ CHR '']'' # rest)"
    by (intro "9.IH"(1)) simp_all
  moreover from n "9.prems" have "parse_elems f' (stringify_elems (y # ys) @ CHR '']'' # rest)
      = Some (y # ys, rest)"
    by (intro "9.IH"(2)) simp_all
  ultimately show ?case using f by (simp add: is_ws_def)
next
  case 10
  then show ?case by simp
next
  case (11 k v)
  then obtain f' where f: "f = Suc f'" and n: "need_v v \<le> f'" by (cases f) auto
  from n "11.prems" have "parse_value f' (JSON_stringify v @ CHR ''}'' # rest)
      = Some (v, CHR ''}'' # rest)"
    by (intro "11.IH") simp_all
  with f show ?case
    by (simp add: is_ws_def quote_def parse_chars_quoted [unfolded dq_def] dq_def)
next
  case (12 k v kv kvs)
  then obtain f' where f: "f = Suc f'" and n: "need_v v \<le> f'" "need_ms (kv # kvs) \<le> f'"
    by (cases f) auto
  from n "12.prems" have "parse_value f' (JSON_stringify v @ CHR '','' # stringify_members (kv # kvs) @ CHR ''}'' # rest)
      = Some (v, CHR '','' # stringify_members (kv # kvs) @ CHR ''}'' # rest)"
    by (intro "12.IH"(1)) simp_all
  moreover from n "12.prems" have "parse_members f' (stringify_members (kv # kvs) @ CHR ''}'' # rest)
      = Some (kv # kvs, rest)"
    by (intro "12.IH"(2)) simp_all
  ultimately show ?case using f
    by (simp add: is_ws_def quote_def parse_chars_quoted [unfolded dq_def] dq_def)
qed


lemma need_le_length:
  "need_v v \<le> length (JSON_stringify v)"
  "need_es xs \<le> length (stringify_elems xs) + 1"
  "need_ms kvs \<le> length (stringify_members kvs) + 1"
proof (induction v and xs and kvs rule: JSON_stringify_stringify_elems_stringify_members.induct)
  case (3 n)
  obtain c cs where "dec_int n = c # cs" using dec_int_start by blast
  then show ?case by simp
qed (simp_all add: quote_def)

lemma JSON_roundtrip: "wf_json v \<Longrightarrow> JSON_parse (JSON_stringify v) = Some v"
proof -
  assume wf: "wf_json v"
  have "need_v v \<le> 2 * length (JSON_stringify v) + 2"
    using need_le_length(1) [of v] by simp
  then have "parse_value (2 * length (JSON_stringify v) + 2) (JSON_stringify v @ []) = Some (v, [])"
    using wf by (intro parse_roundtrip(1)) simp_all
  then show ?thesis by (simp add: JSON_parse_def)
qed

lemma sp_get_set_same: "sp_get k (sp_set k v ps) = Some v"
  by (induction ps) (auto simp: sp_get_def)

lemma sp_get_delete_same: "sp_get k (sp_delete k ps) = None"
  by (induction ps) (auto simp: sp_get_def sp_delete_def)

lemma sp_get_delete_other: "k' \<noteq> k \<Longrightarrow> sp_get k' (sp_delete k ps) = sp_get k' ps"
  by (induction ps) (auto simp: sp_get_def sp_delete_def)

lemma sp_get_set_other: "k' \<noteq> k \<Longrightarrow> sp_get k' (sp_set k v ps) = sp_get k' ps"
  using sp_get_delete_other [of k' k]
  by (induction ps) (auto simp: sp_get_def)

lemma field_filters_encode:
  "sp_get ''field_filters'' (encode ff ps) =
     (if ff \<noteq> [] then Some (JSON_stringify (JObj ff)) else None)"
  by (simp add: encode_def sp_get_delete_other sp_get_set_other sp_get_set_same sp_get_delete_same)

lemma decode_encode:
  assumes "wf_json (JObj ff)"
  shows "decode (encode ff ps) = JObj ff"
proof (cases "ff = []")
  case True
  then show ?thesis by (simp add: decode_def field_filters_encode)
next
  case False
  have "JSON_stringify (JObj ff) \<noteq> []" by simp
  moreover have "JSON_parse (JSON_stringify (JObj ff)) = Some (JObj ff)"
    using assms by (rule JSON_roundtrip)
  ultimately show ?thesis using False
    by (simp add: decode_def field_filters_encode falsy_def del: JSON_stringify.simps)
qed


lemma wf_state_obj: "distinct (map fst state) \<Longrightarrow> wf_json (JObj (state_obj state))"
proof -
  have e: "wf_elems (map JStr vs)" for vs
    by (induction vs) simp_all
  have m: "wf_members (state_obj st)" for st
    by (induction st) (simp_all add: state_obj_def e)
  assume "distinct (map fst state)"
  then have "distinct (map fst (state_obj state))"
    by (simp add: state_obj_def comp_def)
  with m show ?thesis by simp
qed

text \<open>
  C2.  A filter state maps each of its names, no name twice, to a list of strings.
  Decoding the query string that \<open>encode\<close> produced from it gives the same object
  again: the same names with the same lists, in the same order.  The empty state is
  encoded by the absence of \<open>field_filters\<close>, a state with a name by the parameter
  with the JSON text, and both decode to the state.
\<close>

theorem facet_state_roundtrip:
  assumes "distinct (map fst state)"
  shows "decode (encode (state_obj state) search) = JObj (state_obj state)
       \<and> sp_get ''field_filters'' (encode (state_obj state) search)
           = (if state = [] then None else Some (JSON_stringify (JObj (state_obj state))))"
proof -
  from assms have "wf_json (JObj (state_obj state))" by (rule wf_state_obj)
  then have "decode (encode (state_obj state) search) = JObj (state_obj state)"
    by (rule decode_encode)
  moreover have "state_obj state = [] \<longleftrightarrow> state = []"
    by (simp add: state_obj_def)
  ultimately show ?thesis
    by (simp add: field_filters_encode del: JSON_stringify.simps)
qed

theorem facet_state_roundtrip_witness:
  \<open>decode (encode [(''badges'', JArr [JStr ''NEW'', JStr ''SALE'']),
                    (''offers_title'', JArr [JStr ''Buy "2"''])]
             [(''start'', ''20''), (''field_filters'', ''{}'')])
     = JObj [(''badges'', JArr [JStr ''NEW'', JStr ''SALE'']),
             (''offers_title'', JArr [JStr ''Buy "2"''])]
   \<and> sp_get ''field_filters''
        (encode [(''badges'', JArr [JStr ''NEW'', JStr ''SALE'']),
                 (''offers_title'', JArr [JStr ''Buy "2"''])]
           [(''start'', ''20''), (''field_filters'', ''{}'')])
     = Some (''{"badges":["NEW","SALE"],"offers_title":["Buy '' @ [CHR 0x5C] @ ''"2'' @ [CHR 0x5C] @ ''""]}'')
   \<and> decode (encode [] [(''start'', ''20''), (''field_filters'', ''{}'')]) = JObj []
   \<and> sp_get ''field_filters'' (encode [] [(''start'', ''20''), (''field_filters'', ''{}'')])
     = None\<close>
proof -
  let ?st = \<open>[(''badges'', [''NEW'', ''SALE'']), (''offers_title'', [''Buy "2"''])]\<close>
  let ?ps = "[(''start'', ''20''), (''field_filters'', ''{}'')]"
  have d: "distinct (map fst ?st)" by simp
  have d0: "distinct (map fst ([] :: (string \<times> string list) list))" by simp
  have text_eq: \<open>JSON_stringify (JObj (state_obj ?st))
      = ''{"badges":["NEW","SALE"],"offers_title":["Buy '' @ [CHR 0x5C] @ ''"2'' @ [CHR 0x5C] @ ''""]}''\<close>
    by code_simp
  from facet_state_roundtrip [OF d, of ?ps] text_eq
  have 1: \<open>decode (encode [(''badges'', JArr [JStr ''NEW'', JStr ''SALE'']),
                    (''offers_title'', JArr [JStr ''Buy "2"''])] ?ps)
     = JObj [(''badges'', JArr [JStr ''NEW'', JStr ''SALE'']),
             (''offers_title'', JArr [JStr ''Buy "2"''])]
   \<and> sp_get ''field_filters''
        (encode [(''badges'', JArr [JStr ''NEW'', JStr ''SALE'']),
                 (''offers_title'', JArr [JStr ''Buy "2"''])] ?ps)
     = Some (''{"badges":["NEW","SALE"],"offers_title":["Buy '' @ [CHR 0x5C] @ ''"2'' @ [CHR 0x5C] @ ''""]}'')\<close>
    by (simp add: state_obj_def del: JSON_stringify.simps)
  from facet_state_roundtrip [OF d0, of ?ps]
  have 2: "decode (encode [] ?ps) = JObj [] \<and> sp_get ''field_filters'' (encode [] ?ps) = None"
    by (simp add: state_obj_def)
  from 1 2 show ?thesis by blast
qed

section \<open>Properties of the quantity controls\<close>





lemma requested_qty_wrapper:
  "requested_qty crd itemCode d = Some n \<Longrightarrow> qty_wrapper (crd itemCode) \<noteq> None"
  by (auto simp: requested_qty_def split: if_splits option.splits)

lemma failed_update_keeps_card:
  "updateQty crd itemCode newQty NoCallback = crd"
  "exc r \<Longrightarrow> updateQty crd itemCode newQty (Callback (Some r)) = crd"
  by (simp_all add: updateQty_def updateQty_callback_def Let_def)




text \<open>
  C5.  When the cart-update call comes back with the error flag, nothing under the card
  changes: the stepper stays visible with the value it showed, also when the update was
  to quantity 0; the click handler as a whole leaves the card, and the overlay state,
  as they were.
\<close>

theorem cart_update_error_no_transition:
  assumes "exc r"
  shows "updateQty crd itemCode newQty (Callback (Some r)) = crd
       \<and> stepperClick crd itemCode d (Callback (Some r)) = crd
       \<and> transition st (StepperClick itemCode d (Callback (Some r))) = st"
  using assms
  by (simp add: failed_update_keeps_card stepperClick_def split: option.splits)

theorem cart_update_error_no_transition_witness:
  "exc \<lparr>exc = True\<rparr>
   \<and> requested_qty (\<lambda>c. \<lparr>qty_wrapper = Some \<lparr>w_hidden = False, w_input = Some ''1''\<rparr>,
                           add_btn_hidden = Some True\<rparr>) ''ITEM-1'' Dwn = Some 0
   \<and> shown_qty
        (stepperClick (\<lambda>c. \<lparr>qty_wrapper = Some \<lparr>w_hidden = False, w_input = Some ''1''\<rparr>,
                               add_btn_hidden = Some True\<rparr>) ''ITEM-1'' Dwn
           (Callback (Some \<lparr>exc = True\<rparr>))) ''ITEM-1'' = Some ''1''"
proof -
  have h: "exc \<lparr>exc = True\<rparr>" by simp
  have q: "requested_qty (\<lambda>c. \<lparr>qty_wrapper = Some \<lparr>w_hidden = False, w_input = Some ''1''\<rparr>,
                           add_btn_hidden = Some True\<rparr>) ''ITEM-1'' Dwn = Some 0"
    by code_simp
  show ?thesis
    using h q
      cart_update_error_no_transition [OF h,
        of "\<lambda>c. \<lparr>qty_wrapper = Some \<lparr>w_hidden = False, w_input = Some ''1''\<rparr>,
                   add_btn_hidden = Some True\<rparr>" "''ITEM-1''" 0 Dwn]
    by (simp add: shown_qty_def)
qed




section \<open>Properties of the price slider\<close>

lemma set_numbers: "set (numbers vs) = {v. Some v \<in> set vs}"
  by (induction vs rule: numbers.induct) auto

lemma Math_max_Max: "vs \<noteq> [] \<Longrightarrow> Math_max vs = Max (set vs)"
proof (cases vs)
  case Nil
  assume "vs \<noteq> []"
  with Nil show ?thesis by simp
next
  case (Cons a list)
  have "fold max list a = Max (set (a # list))"
    by (simp only: Max.set_eq_fold)
  with Cons show ?thesis by (simp add: Math_max_def)
qed

lemma thousands_above: "(x::rat) \<le> of_int (\<lceil>x / 1000\<rceil> * 1000)"
proof -
  have a: "x / 1000 \<le> of_int \<lceil>x / 1000\<rceil>" by (rule le_of_int_ceiling)
  have "x = (x / 1000) * 1000" by simp
  also have "\<dots> \<le> of_int \<lceil>x / 1000\<rceil> * 1000"
    using a by (rule mult_right_mono) simp
  finally show ?thesis by simp
qed

lemma thousands_near: "of_int (\<lceil>x / 1000\<rceil> * 1000) < (x::rat) + 1000"
proof -
  have "of_int \<lceil>x / 1000\<rceil> - 1 < x / 1000"
    using ceiling_correct [of "x / 1000"] by (rule conjunct1)
  then have a: "of_int \<lceil>x / 1000\<rceil> < x / 1000 + 1" by linarith
  have "of_int \<lceil>x / 1000\<rceil> * 1000 < (x / 1000 + 1) * 1000"
    using a by (rule mult_strict_right_mono) simp
  also have "\<dots> = x + 1000" by (simp add: field_simps)
  finally show ?thesis by simp
qed

text \<open>
  C10.  Without a numeric \<open>to_amount\<close> among the ranges the upper bound of the slider is
  100000.  Otherwise it is the largest \<open>to_amount\<close> rounded up to a thousand: the
  multiple of 1000 that is at least that amount and less than a thousand above it.
\<close>

theorem slider_upper_bound:
  "(numbers (map to_amount ranges) = [] \<longrightarrow> maxPrice ranges = 100000)
 \<and> (numbers (map to_amount ranges) \<noteq> [] \<longrightarrow>
      maxPrice ranges = \<lceil>Max {v. \<exists>r \<in> set ranges. to_amount r = Some v} / 1000\<rceil> * 1000
      \<and> maxPrice ranges mod 1000 = 0
      \<and> Max {v. \<exists>r \<in> set ranges. to_amount r = Some v} \<le> of_int (maxPrice ranges)
      \<and> of_int (maxPrice ranges) < Max {v. \<exists>r \<in> set ranges. to_amount r = Some v} + 1000)"
proof (intro conjI impI)
  assume "numbers (map to_amount ranges) = []"
  then show "maxPrice ranges = 100000" by (simp add: maxPrice_def)
next
  let ?m = "Max {v. \<exists>r \<in> set ranges. to_amount r = Some v}"
  assume ne: "numbers (map to_amount ranges) \<noteq> []"
  have "set (numbers (map to_amount ranges)) = {v. \<exists>r \<in> set ranges. to_amount r = Some v}"
    by (auto simp: set_numbers image_iff intro: rev_bexI)
  with ne have "Math_max (numbers (map to_amount ranges)) = ?m"
    by (simp add: Math_max_Max)
  with ne have eq: "maxPrice ranges = \<lceil>?m / 1000\<rceil> * 1000"
    by (simp add: maxPrice_def)
  then show "maxPrice ranges = \<lceil>?m / 1000\<rceil> * 1000" .
  from eq show "maxPrice ranges mod 1000 = 0" by simp
  from eq show "?m \<le> of_int (maxPrice ranges)" by (simp only: thousands_above)
  from eq show "of_int (maxPrice ranges) < ?m + 1000" by (simp only: thousands_near)
qed

theorem slider_upper_bound_witness:
  "maxPrice [\<lparr>label = ''Budget'', from_amount = Some 0, to_amount = Some 2500\<rparr>,
             \<lparr>label = ''Open'', from_amount = Some 2500, to_amount = None\<rparr>,
             \<lparr>label = ''Mid'', from_amount = Some 2500, to_amount = Some (19999 / 2)\<rparr>]
     = 10000
 \<and> maxPrice [\<lparr>label = ''Open'', from_amount = Some 2500, to_amount = None\<rparr>] = 100000
 \<and> maxPrice [] = 100000"
proof -
  let ?rs = "[\<lparr>label = ''Budget'', from_amount = Some 0, to_amount = Some 2500\<rparr>,
             \<lparr>label = ''Open'', from_amount = Some 2500, to_amount = None\<rparr>,
             \<lparr>label = ''Mid'', from_amount = Some 2500, to_amount = Some (19999 / 2)\<rparr>]"
  have s: "{v. \<exists>r \<in> set ?rs. to_amount r = Some v} = {2500, 19999 / 2}"
    by auto
  have m: "Max {2500, 19999 / 2 :: rat} = 19999 / 2"
    by simp
  have c: "\<lceil>(19999 / 2 :: rat) / 1000\<rceil> = 10"
    by (simp add: ceiling_eq_iff)
  from slider_upper_bound [of ?rs] s m c have 1: "maxPrice ?rs = 10000"
    by simp
  from slider_upper_bound
    [of "[\<lparr>label = ''Open'', from_amount = Some 2500, to_amount = None\<rparr>]"]
  have 2: "maxPrice [\<lparr>label = ''Open'', from_amount = Some 2500, to_amount = None\<rparr>] = 100000"
    by simp
  from slider_upper_bound [of "[]"] have 3: "maxPrice [] = 100000"
    by simp
  from 1 2 3 show ?thesis by blast
qed

lemma updateDisplay_fields [simp]:
  "minSlider (updateDisplayContinuous m w) = minSlider w"
  "maxSlider (updateDisplayContinuous m w) = maxSlider w"
  "minInputBox (updateDisplayContinuous m w) = minInputBox w"
  "maxInputBox (updateDisplayContinuous m w) = maxInputBox w"
  by (simp_all add: updateDisplayContinuous_def Let_def)

lemma enforce_sliders:
  "minSlider (enforceOrderContinuous san maxP w) =
     (if minSlider w > maxSlider w then san (maxSlider w) else minSlider w)"
  "maxSlider (enforceOrderContinuous san maxP w) =
     (if minSlider w > maxSlider w then san (minSlider w) else maxSlider w)"
  by (simp_all add: enforceOrderContinuous_def Let_def)

lemma enforce_ordered:
  assumes "mono san"
  shows "ordered_and_mirrored (enforceOrderContinuous san maxP w)"
proof (cases "minSlider w > maxSlider w")
  case True
  then have "san (maxSlider w) \<le> san (minSlider w)"
    using assms by (simp add: monoD)
  with True show ?thesis
    by (simp add: ordered_and_mirrored_def enforceOrderContinuous_def Let_def)
next
  case False
  then show ?thesis
    by (simp add: ordered_and_mirrored_def enforceOrderContinuous_def Let_def)
qed

lemma mono_range_san: "mono (range_san m)"
proof (rule monoI)
  fix x y :: rat
  assume "x \<le> y"
  then have "\<lfloor>x + 1 / 2\<rfloor> \<le> \<lfloor>y + 1 / 2\<rfloor>" by (intro floor_mono) simp
  then have "(of_int \<lfloor>x + 1 / 2\<rfloor> :: rat) \<le> of_int \<lfloor>y + 1 / 2\<rfloor>" by simp
  then show "range_san m x \<le> range_san m y"
    unfolding range_san_def by (intro max.mono min.mono order_refl)
qed

text \<open>
  C9.  The browser's sanitisation of a range input never reverses the order of two
  values.  Then, whatever the two handles and the two boxes hold, after
  \<open>enforceOrderContinuous\<close> the minimum handle is at most the maximum handle and each
  box holds the value of its handle; handles in the wrong order have been exchanged.
  The same holds after each of the four handlers that end in it: a move of either
  handle, and an edit of either box to a number.
\<close>

theorem slider_order_enforced:
  assumes "mono san"
  shows "ordered_and_mirrored (enforceOrderContinuous san maxP w)
       \<and> minSlider (enforceOrderContinuous san maxP w)
           = (if minSlider w > maxSlider w then san (maxSlider w) else minSlider w)
       \<and> maxSlider (enforceOrderContinuous san maxP w)
           = (if minSlider w > maxSlider w then san (minSlider w) else maxSlider w)
       \<and> ordered_and_mirrored (minSlider_input san maxP pos w)
       \<and> ordered_and_mirrored (maxSlider_input san maxP pos w)
       \<and> (minInputBox w \<noteq> None \<longrightarrow> ordered_and_mirrored (minInputBox_change san maxP w))
       \<and> (maxInputBox w \<noteq> None \<longrightarrow> ordered_and_mirrored (maxInputBox_change san maxP w))"
  using enforce_ordered [OF assms]
  by (auto simp: enforce_sliders minSlider_input_def maxSlider_input_def
      minInputBox_change_def maxInputBox_change_def)

theorem slider_order_enforced_witness:
  "mono (range_san 100000)
 \<and> minSlider (minSlider_input (range_san 100000) 100000 700
      \<lparr>minSlider = 100, maxSlider = 300, minInputBox = Some 100, maxInputBox = Some 300,
       display = ShowRange 100 300\<rparr>) = 300
 \<and> maxSlider (minSlider_input (range_san 100000) 100000 700
      \<lparr>minSlider = 100, maxSlider = 300, minInputBox = Some 100, maxInputBox = Some 300,
       display = ShowRange 100 300\<rparr>) = 700
 \<and> ordered_and_mirrored (minSlider_input (range_san 100000) 100000 700
      \<lparr>minSlider = 100, maxSlider = 300, minInputBox = Some 100, maxInputBox = Some 300,
       display = ShowRange 100 300\<rparr>)
 \<and> ordered_and_mirrored (maxInputBox_change (range_san 100000) 100000
      \<lparr>minSlider = 100, maxSlider = 300, minInputBox = Some 100, maxInputBox = Some 50,
       display = ShowRange 100 300\<rparr>)"
proof -
  let ?w = "\<lparr>minSlider = 100, maxSlider = 300, minInputBox = Some 100, maxInputBox = Some 300,
       display = ShowRange 100 300\<rparr>"
  let ?w' = "\<lparr>minSlider = 100, maxSlider = 300, minInputBox = Some 100, maxInputBox = Some 50,
       display = ShowRange 100 300\<rparr>"
  have m: "mono (range_san 100000)" by (rule mono_range_san)
  have r: "range_san 100000 300 = 300" "range_san 100000 700 = 700"
    by code_simp+
  note t = slider_order_enforced [OF m, of 100000 "?w\<lparr>minSlider := 700\<rparr>" 700]
  have a: "minSlider (minSlider_input (range_san 100000) 100000 700 ?w) = 300"
    using t r by (simp add: minSlider_input_def)
  have b: "maxSlider (minSlider_input (range_san 100000) 100000 700 ?w) = 700"
    using t r by (simp add: minSlider_input_def)
  have c: "ordered_and_mirrored (minSlider_input (range_san 100000) 100000 700 ?w)"
    using slider_order_enforced [OF m, of 100000 ?w 700] by simp
  have d: "ordered_and_mirrored (maxInputBox_change (range_san 100000) 100000 ?w')"
    using slider_order_enforced [OF m, of 100000 ?w' 700] by simp
  from m a b c d show ?thesis by blast
qed

section \<open>Properties of the trigger policy\<close>

lemma debounced_burst: "ts \<noteq> [] \<Longrightarrow> burst q ts \<Longrightarrow> debounced q ts = [last ts + q]"
  by (induction q ts rule: debounced.induct) auto

lemma debounced_follows:
  "sorted ts \<Longrightarrow> t \<in> set ts \<Longrightarrow> \<exists>s \<in> set (debounced q ts). t + q \<le> s"
proof (induction q ts arbitrary: t rule: debounced.induct)
  case (1 q)
  then show ?case by simp
next
  case (2 q t0)
  then show ?case by simp
next
  case (3 q t0 t' ts)
  show ?case
  proof (cases "t = t0")
    case True
    show ?thesis
    proof (cases "t0 + q \<le> t'")
      case True
      with \<open>t = t0\<close> show ?thesis by simp
    next
      case False
      from "3.prems" have "sorted (t' # ts)" by simp
      with False "3.IH"(2) [of t'] have "\<exists>s \<in> set (debounced q (t' # ts)). t' + q \<le> s"
        by simp
      moreover from "3.prems" \<open>t = t0\<close> have "t \<le> t'" by simp
      ultimately obtain s where "s \<in> set (debounced q (t' # ts))" and "t + q \<le> s"
        by (auto intro: order_trans [of "t + q" "t' + q"])
      with False show ?thesis by auto
    qed
  next
    case False
    with "3.prems" have st: "sorted (t' # ts)" and mem: "t \<in> set (t' # ts)" by simp_all
    have "\<exists>s \<in> set (debounced q (t' # ts)). t + q \<le> s"
    proof (cases "t0 + q \<le> t'")
      case True
      from "3.IH"(1) [OF True st mem] show ?thesis .
    next
      case False
      from "3.IH"(2) [OF False st mem] show ?thesis .
    qed
    then show ?thesis by auto
  qed
qed

text \<open>
  C4, as amended.  Only the badge script has all three triggers: it runs after 600 ms,
  again after 1500 ms and after 3000 ms, and, when the listing exists, after every
  mutation under the listing, 400 ms after the last one of a burst, so that a burst gives
  one run.  The offers script runs once, after 600 ms, and the discount script once,
  after 500 ms, whatever mutations follow.
\<close>

theorem trigger_policy:
  "delays (triggers_of Badges) = [600, 1500, 3000]
 \<and> (sorted ms \<and> t \<in> set ms \<longrightarrow>
      (\<exists>s \<in> set (sync_times Badges True ms). t + 400 \<le> s))
 \<and> (ms \<noteq> [] \<and> burst 400 ms \<longrightarrow>
      sync_times Badges True ms = [600, 1500, 3000, last ms + 400])
 \<and> sync_times Offers present ms = [600]
 \<and> sync_times Discounts present ms = [500]"
proof (intro conjI impI)
  assume "sorted ms \<and> t \<in> set ms"
  then have "\<exists>s \<in> set (debounced 400 ms). t + 400 \<le> s"
    by (simp add: debounced_follows)
  then show "\<exists>s \<in> set (sync_times Badges True ms). t + 400 \<le> s"
    by (auto simp: sync_times_def)
next
  assume "ms \<noteq> [] \<and> burst 400 ms"
  then show "sync_times Badges True ms = [600, 1500, 3000, last ms + 400]"
    by (simp add: sync_times_def debounced_burst)
qed (simp_all add: sync_times_def)

theorem trigger_policy_witness:
  "sync_times Badges True [1000, 1100, 1350] = [600, 1500, 3000, 1750]
 \<and> (\<exists>s \<in> set (sync_times Badges True [1000, 1100, 1350]). (1100::nat) + 400 \<le> s)
 \<and> sync_times Offers True [1000, 1100, 1350] = [600]
 \<and> sync_times Discounts True [1000, 1100, 1350] = [500]"
proof -
  have s: "sorted [1000, 1100, 1350 :: nat]" by simp
  have b: "burst 400 [1000, 1100, 1350]" by simp
  note t = trigger_policy [of "[1000, 1100, 1350]" 1100 True]
  from t b have 1: "sync_times Badges True [1000, 1100, 1350] = [600, 1500, 3000, 1750]"
    by simp
  from t s have 2: "\<exists>s \<in> set (sync_times Badges True [1000, 1100, 1350]). (1100::nat) + 400 \<le> s"
    by simp
  from t have 3: "sync_times Offers True [1000, 1100, 1350] = [600]"
    by blast
  from t have 4: "sync_times Discounts True [1000, 1100, 1350] = [500]"
    by blast
  from 1 2 3 4 show ?thesis by blast
qed

theorem offers_and_discounts_run_once_counterexample:
  "triggers_of Offers = \<lparr>delays = [600], observer_delay = None\<rparr>
 \<and> triggers_of Discounts = \<lparr>delays = [500], observer_delay = None\<rparr>
 \<and> sync_times Offers True [1000, 1100, 1350] = [600]
 \<and> sync_times Discounts True [1000, 1100, 1350] = [500]
 \<and> sync_times Badges True [1000, 1100, 1350] = [600, 1500, 3000, 1750]"
  by (simp add: sync_times_def)

section \<open>Properties of the injection scripts\<close>


lemma put_fields [simp]:
  "nid (put p w n) = nid n" "tag (put p w n) = tag n" "classes (put p w n) = classes n"
  "item_code (put p w n) = item_code n" "content (put p w n) = content n"
  by (cases n; simp)+

lemma matches_put [simp]: "matches s (put p w n) = matches s n"
  by (induction s) simp_all

lemma anc_None_iff:
  "anc t n = None \<longleftrightarrow> t \<notin> set (ids n)"
  "anc_list t ks = None \<longleftrightarrow> t \<notin> set (ids_list ks)"
  by (induction t n and t ks rule: anc_anc_list.induct) (auto split: option.splits)

lemma ids_put:
  "set (ids (put p w n)) \<subseteq> set (ids n) \<union> set (ids w)"
  "set (ids_list (put_list p w ks)) \<subseteq> set (ids_list ks) \<union> set (ids w)"
  by (induction p w n and p w ks rule: put_put_list.induct) auto

lemma ids_put_sup:
  "set (ids n) \<subseteq> set (ids (put p w n))"
  "set (ids_list ks) \<subseteq> set (ids_list (put_list p w ks))"
  by (induction p w n and p w ks rule: put_put_list.induct) auto

lemma anc_put:
  assumes "t \<notin> set (ids w)"
  shows "anc t (put p w n) = map_option (map (put p w)) (anc t n)"
    and "anc_list t (put_list p w ks) = map_option (map (put p w)) (anc_list t ks)"
proof (induction n and ks rule: desc_desc_list.induct)
  case (1 i tg cs a x ks)
  have wn: "anc t w = None" using assms by (simp add: anc_None_iff)
  show ?case
    using 1 wn by (auto split: option.splits)
next
  case 2
  then show ?case by simp
next
  case (3 k ks)
  have wn: "anc t w = None" using assms by (simp add: anc_None_iff)
  show ?case
    using 3 wn by (auto split: option.splits)
qed

lemma find_map_put:
  "find (matches s) (map (put p w) xs) = map_option (put p w) (find (matches s) xs)"
  by (induction xs) simp_all

lemma anc_nonempty:
  "anc t n = Some chain \<Longrightarrow> chain \<noteq> []"
  "anc_list t ks = Some chain \<Longrightarrow> chain \<noteq> []"
  by (induction t n and t ks arbitrary: chain and chain rule: anc_anc_list.induct)
    (auto split: option.splits if_splits)

lemma closest_put:
  "t \<notin> set (ids w) \<Longrightarrow> closest s t (put p w d) = map_option (put p w) (closest s t d)"
  by (auto simp: closest_def anc_put find_map_put split: option.splits)

lemma element_put:
  "t \<notin> set (ids w) \<Longrightarrow> element t (put p w d) = map_option (put p w) (element t d)"
  by (auto simp: element_def anc_put hd_map anc_nonempty split: option.splits)

lemma filter_desc_put:
  assumes "free_of s w"
  shows "filter (matches s) (desc (put p w n)) = map (put p w) (filter (matches s) (desc n))"
    and "filter (matches s) (desc_list (put_list p w ks))
           = map (put p w) (filter (matches s) (desc_list ks))"
proof (induction n and ks rule: desc_desc_list.induct)
  case (1 i tg cs a x ks)
  have "filter (matches s) (w # desc w) = []"
    using assms by (auto simp: free_of_def filter_empty_conv)
  with 1 show ?case by auto
next
  case 2
  then show ?case by simp
next
  case (3 k ks)
  have "filter (matches s) (w # desc w) = []"
    using assms by (auto simp: free_of_def filter_empty_conv)
  with 3 show ?case by auto
qed

lemma find_filter: "find P xs = (case filter P xs of [] \<Rightarrow> None | x # _ \<Rightarrow> Some x)"
  by (induction xs) simp_all

lemma querySelector_put:
  "free_of s w \<Longrightarrow> querySelector s (put p w n) = map_option (put p w) (querySelector s n)"
  by (simp add: querySelector_def find_filter filter_desc_put split: list.splits)


lemma querySelector_Some_iff:
  "querySelector s n \<noteq> None \<longleftrightarrow> (\<exists>x \<in> set (desc n). matches s x)"
  by (auto simp: querySelector_def find_None_iff)

lemma querySelector_SomeD:
  "querySelector s n = Some x \<Longrightarrow> x \<in> set (desc n) \<and> matches s x"
  by (auto simp: querySelector_def find_Some_iff)

lemma desc_put_mem:
  "x \<in> set (desc n) \<Longrightarrow> put p w x \<in> set (desc (put p w n))"
  "x \<in> set (desc_list ks) \<Longrightarrow> put p w x \<in> set (desc_list (put_list p w ks))"
  by (induction n and ks rule: desc_desc_list.induct) auto

lemma desc_trans:
  "x \<in> set (desc n) \<Longrightarrow> set (desc x) \<subseteq> set (desc n)"
  "x \<in> set (desc_list ks) \<Longrightarrow> set (desc x) \<subseteq> set (desc_list ks)"
  by (induction n and ks rule: desc_desc_list.induct) auto



lemma marker_put_mono:
  assumes "querySelector s n \<noteq> None"
  shows "querySelector s (put p w n) \<noteq> None"
proof -
  from assms have "\<exists>x \<in> set (desc n). matches s x"
    by (simp only: querySelector_Some_iff)
  then obtain x where "x \<in> set (desc n)" "matches s x"
    by blast
  then have "put p w x \<in> set (desc (put p w n))" "matches s (put p w x)"
    by (simp_all add: desc_put_mem)
  then have "\<exists>x \<in> set (desc (put p w n)). matches s x" by blast
  then show ?thesis by (simp only: querySelector_Some_iff)
qed

lemma fold_max_ge: "(a::nat) \<le> fold max xs a"
  by (induction xs arbitrary: a) (auto intro: order_trans [OF max.cobounded2])

lemma fold_max_mem: "(x::nat) \<in> set xs \<Longrightarrow> x \<le> fold max xs a"
proof (induction xs arbitrary: a)
  case Nil
  then show ?case by simp
next
  case (Cons y ys)
  show ?case
  proof (cases "x = y")
    case True
    have "max y a \<le> fold max ys (max y a)" by (rule fold_max_ge)
    with True show ?thesis by simp
  next
    case False
    with Cons show ?thesis by simp
  qed
qed

lemma fresh_gt: "t \<in> set (ids d) \<Longrightarrow> t < fresh d"
  by (simp add: fresh_def fold_max_mem less_Suc_eq_le)

lemma fold_max_mono:
  "set xs \<subseteq> set ys \<Longrightarrow> fold max xs (a::nat) \<le> fold max ys a"
proof -
  assume sub: "set xs \<subseteq> set ys"
  have "fold max xs a \<le> b" if "a \<le> b" "\<forall>x \<in> set xs. x \<le> b" for b
    using that by (induction xs arbitrary: a) auto
  then show ?thesis
    using sub fold_max_ge [of a ys] fold_max_mem [of _ ys a] by blast
qed

lemma fresh_put_mono: "fresh d \<le> fresh (put p w d)"
  by (simp add: fresh_def fold_max_mono ids_put_sup)

lemma inert_free:
  assumes "inert w"
  shows "free_of HasCode w" "free_of (CodeIs c) w" "free_of card_sel w"
    "free_of (Cls ''product-price'') w" "free_of (Cls ''card-body'') w"
    "free_of (Cls ''card'') w" "free_of (Cls ''item-card'') w" "free_of (Cls ''list-row'') w"
  using assms
  by (auto simp: inert_def free_of_def plain_def list_all_iff card_sel_def)

lemma grow_fresh: "grow d d' \<Longrightarrow> fresh d \<le> fresh d'"
  by (auto simp: grow_def fresh_put_mono)

lemma grows_fresh: "grow\<^sup>*\<^sup>* d d' \<Longrightarrow> fresh d \<le> fresh d'"
  by (induction rule: rtranclp_induct) (auto dest: grow_fresh)





lemma nid_in_ids: "nid n \<in> set (ids n)"
  by (cases n) simp











subsection \<open>What the scripts build\<close>

lemma offer_lines_props:
  "desc_list (offer_lines tr i offers) = offer_lines tr i offers"
  "list_all plain (offer_lines tr i offers)"
  "\<forall>j \<in> set (ids_list (offer_lines tr i offers)). i \<le> j"
  by (induction tr i offers rule: offer_lines.induct)
    (auto simp: offer_line_def plain_def)

lemma offer_wrapper_inert: "inert (offer_wrapper tr b offers)"
  using offer_lines_props(2) [of tr "b + 4" offers]
  by (simp add: inert_def offer_wrapper_def offer_lines_props(1) plain_def)

lemma offer_wrapper_ids: "\<forall>j \<in> set (ids (offer_wrapper tr b offers)). b \<le> j"
  using offer_lines_props(3) [of tr "b + 4" offers]
  by (auto simp: offer_wrapper_def)


lemma discount_info_props:
  "inert (discount_info tr b n)"
  "\<forall>j \<in> set (ids (discount_info tr b n)). b \<le> j"
  "matches (Cls ''customer-discount-info'') (discount_info tr b n)"
  by (simp_all add: discount_info_def inert_def plain_def)

lemma badge_spans_props:
  "desc_list (badge_spans i bs) = badge_spans i bs"
  "list_all plain (badge_spans i bs)"
  "\<forall>j \<in> set (ids_list (badge_spans i bs)). i \<le> j"
  by (induction i bs rule: badge_spans.induct)
    (auto simp: badge_span_def plain_def Let_def)

lemma badge_container_props:
  "inert (badge_container b bs)"
  "\<forall>j \<in> set (ids (badge_container b bs)). b \<le> j"
  "matches (Cls ''ce-badges'') (badge_container b bs)"
  using badge_spans_props(2) [of "b + 1" bs] badge_spans_props(3) [of "b + 1" bs]
  by (auto simp: badge_container_def inert_def plain_def badge_spans_props(1))

subsection \<open>A marker under the card after an insertion\<close>




lemma grow_putI:
  "inert w \<Longrightarrow> \<forall>j \<in> set (ids w). fresh d \<le> j \<Longrightarrow> grow d (put p w d)"
  by (auto simp: grow_def)

lemma fresh_not_in:
  assumes "t \<in> set (ids d)" and "\<forall>j \<in> set (ids w). fresh d \<le> j"
  shows "t \<notin> set (ids w)"
  using assms fresh_gt [of t d] by auto

subsection \<open>Offers\<close>

lemma offer_fixed: "blocked_offer t d \<Longrightarrow> inject_offer tr offers t d = d"
  by (auto simp: blocked_offer_def inject_offer_def split: option.splits)

lemma offer_shape: "inject_offer tr offers t d = d \<or> grow d (inject_offer tr offers t d)"
  by (auto simp: inject_offer_def offer_wrapper_inert offer_wrapper_ids
      intro!: grow_putI split: option.splits)


lemma offer_pres:
  assumes b: "blocked_offer t d" and g: "grow d d'" and t: "t < fresh d"
  shows "blocked_offer t d'"
proof -
  from g obtain p w where d': "d' = put p w d" and w: "inert w"
    and fr: "\<forall>i \<in> set (ids w). fresh d \<le> i"
    by (auto simp: grow_def)
  from fr t have "t \<notin> set (ids w)" by auto
  then have c: "closest card_sel t d' = map_option (put p w) (closest card_sel t d)"
    by (simp add: d' closest_put)
  show ?thesis
  proof (cases "closest card_sel t d")
    case None
    with c show ?thesis by (simp add: blocked_offer_def)
  next
    case (Some crd)
    with b have "querySelector (Cls ''offer-container'') crd \<noteq> None
        \<or> querySelector (Cls ''product-price'') crd = None"
      by (simp add: blocked_offer_def)
    then have "querySelector (Cls ''offer-container'') (put p w crd) \<noteq> None
        \<or> querySelector (Cls ''product-price'') (put p w crd) = None"
      using marker_put_mono [of "Cls ''offer-container''" crd p w]
      by (auto simp: querySelector_put inert_free [OF w])
    with c Some show ?thesis by (simp add: blocked_offer_def)
  qed
qed

lemma offers_as_loop:
  "injectProductOffers tr (Some f) l d
     = sync_loop (\<lambda>c. f c = []) (\<lambda>c. inject_offer tr (f c)) l d"
  by (simp add: injectProductOffers_def offers_callback_def sync_loop_def
      per_code_def [abs_def])


subsection \<open>Discounts\<close>

lemma discount_fixed: "blocked_discount t d \<Longrightarrow> inject_discount tr n t d = d"
  by (auto simp: blocked_discount_def inject_discount_def split: option.splits)

lemma discount_shape: "inject_discount tr n t d = d \<or> grow d (inject_discount tr n t d)"
  by (auto simp: inject_discount_def discount_info_props
      intro!: grow_putI split: option.splits)


lemma discount_pres:
  assumes b: "blocked_discount t d" and g: "grow d d'" and t: "t < fresh d"
  shows "blocked_discount t d'"
proof -
  from g obtain p w where d': "d' = put p w d" and w: "inert w"
    and fr: "\<forall>i \<in> set (ids w). fresh d \<le> i"
    by (auto simp: grow_def)
  from fr t have "t \<notin> set (ids w)" by auto
  then have c: "closest card_sel t d' = map_option (put p w) (closest card_sel t d)"
    by (simp add: d' closest_put)
  show ?thesis
  proof (cases "closest card_sel t d")
    case None
    with c show ?thesis by (simp add: blocked_discount_def)
  next
    case (Some crd)
    with b have "querySelector (Cls ''customer-discount-info'') crd \<noteq> None
        \<or> querySelector (Cls ''product-price'') crd = None"
      by (auto simp: blocked_discount_def)
    then have "querySelector (Cls ''customer-discount-info'') (put p w crd) \<noteq> None
        \<or> querySelector (Cls ''product-price'') (put p w crd) = None"
      using marker_put_mono [of "Cls ''customer-discount-info''" crd p w]
      by (auto simp: querySelector_put inert_free [OF w])
    with c Some show ?thesis by (auto simp: blocked_discount_def)
  qed
qed

lemma discounts_as_loop:
  "injectConsumerDiscount tr (Some f) l d
     = sync_loop (\<lambda>c. f c = 0) (\<lambda>c. inject_discount tr (f c)) l d"
  by (simp add: injectConsumerDiscount_def discounts_callback_def sync_loop_def
      per_code_def [abs_def])


subsection \<open>Badges\<close>

lemma first_of_map: "first_of (map_option f a) (map_option f b) = map_option f (first_of a b)"
  by (cases a) (simp_all add: first_of_def)

lemma badge_card_put:
  "t \<notin> set (ids w) \<Longrightarrow> badge_card t (put p w d) = map_option (put p w) (badge_card t d)"
  by (simp add: badge_card_def closest_put first_of_map)

lemma card_body_put:
  "inert w \<Longrightarrow> card_body (put p w crd) = put p w (card_body crd)"
  by (simp add: card_body_def querySelector_put inert_free split: option.splits)


lemma badge_fixed: "blocked_badge t d \<Longrightarrow> inject_badge bs t d = d"
  by (auto simp: blocked_badge_def inject_badge_def Let_def split: option.splits)

lemma badge_shape: "inject_badge bs t d = d \<or> grow d (inject_badge bs t d)"
  by (auto simp: inject_badge_def Let_def badge_container_props
      intro!: grow_putI split: option.splits)



lemma badge_pres:
  assumes b: "blocked_badge t d" and g: "grow d d'" and t: "t < fresh d"
  shows "blocked_badge t d'"
proof -
  from g obtain p w where d': "d' = put p w d" and w: "inert w"
    and fr: "\<forall>i \<in> set (ids w). fresh d \<le> i"
    by (auto simp: grow_def)
  from fr t have "t \<notin> set (ids w)" by auto
  then have c: "badge_card t d' = map_option (put p w) (badge_card t d)"
    by (simp add: d' badge_card_put)
  show ?thesis
  proof (cases "badge_card t d")
    case None
    with c show ?thesis by (simp add: blocked_badge_def)
  next
    case (Some crd)
    with b have "querySelector (Cls ''ce-badges'') (card_body crd) \<noteq> None"
      by (simp add: blocked_badge_def)
    then have "querySelector (Cls ''ce-badges'') (put p w (card_body crd)) \<noteq> None"
      by (rule marker_put_mono)
    with c Some show ?thesis by (simp add: blocked_badge_def card_body_put [OF w])
  qed
qed

lemma badges_as_loop:
  "injectBadges (Some f) l d = sync_loop (\<lambda>c. f c = []) (\<lambda>c. inject_badge (f c)) l d"
  by (simp add: injectBadges_def badges_callback_def sync_loop_def per_code_def [abs_def])



subsection \<open>Nothing of the page is lost, and where the new node stands\<close>


lemma prune_put:
  assumes "b \<le> nid w"
  shows "prune b (put p w n) = prune b n"
    and "prune_list b (put_list p w ks) = prune_list b ks"
  using assms
  by (induction n and ks rule: desc_desc_list.induct) auto

lemma prune_id:
  "\<forall>i \<in> set (ids n). i < b \<Longrightarrow> prune b n = n"
  "\<forall>i \<in> set (ids_list ks). i < b \<Longrightarrow> prune_list b ks = ks"
  using nid_in_ids
  by (induction n and ks rule: desc_desc_list.induct) (auto simp: not_le)

lemma prune_fresh: "prune (fresh d) d = d"
  by (rule prune_id) (simp add: fresh_gt)

lemma grow_prune: "grow d d' \<Longrightarrow> b \<le> fresh d \<Longrightarrow> prune b d' = prune b d"
proof -
  assume g: "grow d d'" and b: "b \<le> fresh d"
  from g obtain p w where d': "d' = put p w d" and fr: "\<forall>i \<in> set (ids w). fresh d \<le> i"
    by (auto simp: grow_def)
  from fr nid_in_ids [of w] b have "b \<le> nid w" by fastforce
  with d' show ?thesis by (simp add: prune_put)
qed

lemma grows_prune: "grow\<^sup>*\<^sup>* d d' \<Longrightarrow> b \<le> fresh d \<Longrightarrow> prune b d' = prune b d"
proof (induction rule: rtranclp_induct)
  case base
  then show ?case by simp
next
  case (step y z)
  then have "b \<le> fresh y" using grows_fresh [of d y] by simp
  with step show ?case using grow_prune [of y z b] by simp
qed

lemma fold_grows:
  assumes shape: "\<And>t d. st t d = d \<or> grow d (st t d)"
  shows "grow\<^sup>*\<^sup>* d (fold st ts d)"
proof (induction ts arbitrary: d)
  case Nil
  then show ?case by simp
next
  case (Cons t ts)
  have "grow\<^sup>*\<^sup>* d (st t d)" using shape [of t d] by auto
  with Cons [of "st t d"] show ?case by simp
qed

lemma sync_loop_grows:
  assumes shape: "\<And>c t d. stc c t d = d \<or> grow d (stc c t d)"
  shows "grow\<^sup>*\<^sup>* d (sync_loop skip stc l d)"
proof -
  have "grow\<^sup>*\<^sup>* d (fold (per_code skip stc l) codes d)" for codes d
  proof (induction codes arbitrary: d)
    case Nil
    then show ?case by simp
  next
    case (Cons c codes)
    have "grow\<^sup>*\<^sup>* d (per_code skip stc l c d)"
      using fold_grows [of "stc c" d "targets c l d"] shape by (simp add: per_code_def)
    with Cons [of "per_code skip stc l c d"] show ?case by simp
  qed
  then show ?thesis by (simp add: sync_loop_def)
qed

lemma sync_loop_prune:
  assumes shape: "\<And>c t d. stc c t d = d \<or> grow d (stc c t d)"
  shows "prune (fresh d) (sync_loop skip stc l d) = d"
  using grows_prune [OF sync_loop_grows [of stc d skip l, OF shape], of "fresh d"]
  by (simp add: prune_fresh)

lemma offers_prune: "prune (fresh d) (injectProductOffers tr message l d) = d"
proof (cases message)
  case None
  then show ?thesis by (simp add: injectProductOffers_def offers_callback_def prune_fresh)
next
  case (Some f)
  then show ?thesis by (simp add: offers_as_loop sync_loop_prune offer_shape)
qed

lemma discounts_prune: "prune (fresh d) (injectConsumerDiscount tr message l d) = d"
proof (cases message)
  case None
  then show ?thesis by (simp add: injectConsumerDiscount_def discounts_callback_def prune_fresh)
next
  case (Some f)
  then show ?thesis by (simp add: discounts_as_loop sync_loop_prune discount_shape)
qed

lemma badges_prune: "prune (fresh d) (injectBadges message l d) = d"
proof (cases message)
  case None
  then show ?thesis by (simp add: injectBadges_def badges_callback_def prune_fresh)
next
  case (Some f)
  then show ?thesis by (simp add: badges_as_loop sync_loop_prune badge_shape)
qed

lemma desc_nid_ids:
  "nid ` set (desc n) \<subseteq> set (ids n)"
  "nid ` set (desc_list ks) \<subseteq> set (ids_list ks)"
  using nid_in_ids
  by (induction n and ks rule: desc_desc_list.induct) auto

lemma next_sibling_None:
  "a \<notin> nid ` set (desc n) \<Longrightarrow> next_sibling a n = None"
  "a \<notin> nid ` set (desc_list ks) \<Longrightarrow> next_in a ks = None"
  by (induction n and ks rule: desc_desc_list.induct) (auto simp: image_Un)

lemma desc_put_nids:
  "nid ` set (desc (put p w n)) \<subseteq> nid ` set (desc n) \<union> set (ids w)"
  "nid ` set (desc_list (put_list p w ks)) \<subseteq> nid ` set (desc_list ks) \<union> set (ids w)"
proof (induction n and ks rule: desc_desc_list.induct)
  case (1 i t cs c x ks)
  have "nid ` set (w # desc w) \<subseteq> set (ids w)"
    using desc_nid_ids(1) [of w] nid_in_ids [of w] by auto
  with 1 show ?case by (auto simp: image_Un)
next
  case 2
  then show ?case by simp
next
  case (3 k ks)
  have "nid ` set (w # desc w) \<subseteq> set (ids w)"
    using desc_nid_ids(1) [of w] nid_in_ids [of w] by auto
  with 3 show ?case by (auto simp: image_Un)
qed

lemma next_sibling_put:
  assumes "a \<notin> set (ids w)"
  shows "a \<in> nid ` set (desc n) \<Longrightarrow> next_sibling a (put (After a) w n) = Some w"
    and "a \<in> nid ` set (desc_list ks) \<Longrightarrow> next_in a (put_list (After a) w ks) = Some w"
proof (induction n and ks rule: desc_desc_list.induct)
  case (1 i t cs c x ks)
  then show ?case by simp
next
  case 2
  then show ?case by simp
next
  case (3 k ks)
  show ?case
  proof (cases "nid k = a")
    case True
    then show ?thesis by simp
  next
    case nk: False
    show ?thesis
    proof (cases "a \<in> nid ` set (desc k)")
      case True
      with 3 nk show ?thesis by simp
    next
      case False
      with assms desc_put_nids(1) [of "After a" w k]
      have "a \<notin> nid ` set (desc (put (After a) w k))"
        by blast
      then have "next_sibling a (put (After a) w k) = None" by (rule next_sibling_None)
      moreover from False nk "3.prems" have "a \<in> nid ` set (desc_list ks)" by auto
      ultimately show ?thesis using 3 nk by simp
    qed
  qed
qed

lemma anc_head:
  "anc t n = Some chain \<Longrightarrow> nid (hd chain) = t"
  "anc_list t ks = Some chain \<Longrightarrow> nid (hd chain) = t"
proof (induction t n and t ks arbitrary: chain and chain rule: anc_anc_list.induct)
  case (1 t i tg cs a x ks)
  show ?case
  proof (cases "i = t")
    case True
    with "1.prems" show ?thesis by auto
  next
    case False
    with "1.prems" obtain ch where ch: "anc_list t ks = Some ch"
      and chain: "chain = ch @ [Node i tg cs a x ks]"
      by (auto split: option.splits)
    from ch have "ch \<noteq> []" by (rule anc_nonempty)
    with "1.IH" [OF False ch] chain show ?thesis by simp
  qed
next
  case (2 t)
  then show ?case by simp
next
  case (3 t k ks)
  then show ?case by (cases "anc t k") simp_all
qed

lemma element_nid: "element c d = Some n \<Longrightarrow> nid n = c"
  using anc_head(1) [of c d] by (cases "anc c d") (auto simp: element_def)

lemma first_child_put:
  assumes "c \<in> set (ids d)" and "c \<notin> set (ids w)"
  shows "first_child c (put (FirstIn c) w d) = Some w"
proof -
  from assms(1) obtain n where n: "element c d = Some n"
    by (cases "anc c d") (simp_all add: element_def anc_None_iff)
  then have "nid n = c" by (rule element_nid)
  then have "put (FirstIn c) w n = Node c (tag n) (classes n) (item_code n) (content n)
      (w # put_list (FirstIn c) w (kids n))"
    by (cases n) simp
  with n assms(2) show ?thesis
    by (simp add: first_child_def element_put)
qed

lemma anc_desc:
  "anc t n = Some chain \<Longrightarrow> \<forall>x \<in> set chain. x = n \<or> x \<in> set (desc n)"
  "anc_list t ks = Some chain \<Longrightarrow> \<forall>x \<in> set chain. x \<in> set (desc_list ks)"
proof (induction t n and t ks arbitrary: chain and chain rule: anc_anc_list.induct)
  case (1 t i tg cs a x ks)
  show ?case
  proof (cases "i = t")
    case True
    with "1.prems" show ?thesis by auto
  next
    case False
    with "1.prems" obtain ch where ch: "anc_list t ks = Some ch"
      and chain: "chain = ch @ [Node i tg cs a x ks]"
      by (auto split: option.splits)
    from "1.IH" [OF False ch] chain show ?thesis by auto
  qed
next
  case (2 t)
  then show ?case by simp
next
  case (3 t k ks)
  show ?case
  proof (cases "anc t k")
    case None
    with "3.prems" have "anc_list t ks = Some chain" by simp
    from "3.IH"(2) [OF None this] show ?thesis by auto
  next
    case (Some ch)
    with "3.prems" have "ch = chain" by simp
    with "3.IH"(1) [of chain] Some show ?thesis by auto
  qed
qed

lemma closest_desc:
  assumes "closest s t d = Some crd" and "x \<in> set (desc crd)"
  shows "x \<in> set (desc d)"
proof -
  from assms(1) obtain chain where c: "anc t d = Some chain" and f: "find (matches s) chain = Some crd"
    by (cases "anc t d") (simp_all add: closest_def)
  from f have "crd \<in> set chain" by (auto simp: find_Some_iff)
  with anc_desc(1) [OF c] have "crd = d \<or> crd \<in> set (desc d)" by blast
  with assms(2) desc_trans(1) [of crd d] show ?thesis by auto
qed

lemma closest_self_or_desc:
  assumes "closest s t d = Some crd"
  shows "crd = d \<or> crd \<in> set (desc d)"
proof -
  from assms(1) obtain chain where c: "anc t d = Some chain" and f: "find (matches s) chain = Some crd"
    by (cases "anc t d") (simp_all add: closest_def)
  from f have "crd \<in> set chain" by (auto simp: find_Some_iff)
  with anc_desc(1) [OF c] show ?thesis by blast
qed

lemma in_doc_fresh:
  assumes "x \<in> set (desc d)"
  shows "nid x \<in> nid ` set (desc d)" and "nid x \<in> set (ids d)"
  using assms desc_nid_ids(1) [of d] by auto

lemma offer_placement:
  assumes "inject_offer tr offers el d \<noteq> d"
  shows "\<exists>crd priceEl. closest card_sel el d = Some crd
           \<and> querySelector (Cls ''product-price'') crd = Some priceEl
           \<and> next_sibling (nid priceEl) (inject_offer tr offers el d)
               = Some (offer_wrapper tr (fresh d) offers)"
proof -
  from assms have "\<not> blocked_offer el d" by (auto dest: offer_fixed)
  then obtain crd priceEl where c: "closest card_sel el d = Some crd"
    and nm: "querySelector (Cls ''offer-container'') crd = None"
    and p: "querySelector (Cls ''product-price'') crd = Some priceEl"
    by (auto simp: blocked_offer_def split: option.splits)
  let ?w = "offer_wrapper tr (fresh d) offers"
  from c nm p have d': "inject_offer tr offers el d = put (After (nid priceEl)) ?w d"
    by (simp add: inject_offer_def)
  from p have "priceEl \<in> set (desc crd)" by (simp add: querySelector_SomeD)
  with c have pd: "priceEl \<in> set (desc d)" by (rule closest_desc)
  then have "nid priceEl \<notin> set (ids ?w)"
    using offer_wrapper_ids by (intro fresh_not_in in_doc_fresh(2))
  with pd have "next_sibling (nid priceEl) (put (After (nid priceEl)) ?w d) = Some ?w"
    by (intro next_sibling_put(1) in_doc_fresh(1))
  with c p d' show ?thesis by simp
qed

lemma discount_placement:
  assumes "inject_discount tr n el d \<noteq> d"
  shows "\<exists>crd priceEl. closest card_sel el d = Some crd
           \<and> querySelector (Cls ''product-price'') crd = Some priceEl
           \<and> next_sibling (nid priceEl) (inject_discount tr n el d)
               = Some (discount_info tr (fresh d) n)"
proof -
  from assms have "\<not> blocked_discount el d" by (auto dest: discount_fixed)
  then obtain crd priceEl where c: "closest card_sel el d = Some crd"
    and nm: "querySelector (Cls ''customer-discount-info'') crd = None"
    and p: "querySelector (Cls ''product-price'') crd = Some priceEl"
    by (auto simp: blocked_discount_def split: option.splits)
  let ?w = "discount_info tr (fresh d) n"
  from c nm p have d': "inject_discount tr n el d = put (After (nid priceEl)) ?w d"
    by (simp add: inject_discount_def)
  from p have "priceEl \<in> set (desc crd)" by (simp add: querySelector_SomeD)
  with c have pd: "priceEl \<in> set (desc d)" by (rule closest_desc)
  then have "nid priceEl \<notin> set (ids ?w)"
    using discount_info_props(2) by (intro fresh_not_in in_doc_fresh(2))
  with pd have "next_sibling (nid priceEl) (put (After (nid priceEl)) ?w d) = Some ?w"
    by (intro next_sibling_put(1) in_doc_fresh(1))
  with c p d' show ?thesis by simp
qed

lemma no_price_no_overlay:
  assumes "closest card_sel el d = Some crd"
    and "querySelector (Cls ''product-price'') crd = None"
  shows "inject_offer tr offers el d = d" and "inject_discount tr n el d = d"
  using assms by (simp_all add: inject_offer_def inject_discount_def)

lemma badge_card_closest:
  "badge_card t d = Some crd \<Longrightarrow> \<exists>s. closest s t d = Some crd"
  by (auto simp: badge_card_def first_of_def split: option.splits)

lemma card_body_in:
  "card_body crd = crd \<or> card_body crd \<in> set (desc crd)"
  by (auto simp: card_body_def dest: querySelector_SomeD split: option.splits)

lemma badge_placement:
  assumes "inject_badge bs el d \<noteq> d"
  shows "\<exists>crd. badge_card el d = Some crd
           \<and> (case title_of (card_body crd) of
                 Some titleEl \<Rightarrow>
                   next_sibling (nid titleEl) (inject_badge bs el d)
                     = Some (badge_container (fresh d) bs)
               | None \<Rightarrow>
                   first_child (nid (card_body crd)) (inject_badge bs el d)
                     = Some (badge_container (fresh d) bs))"
proof -
  from assms have "\<not> blocked_badge el d" by (auto dest: badge_fixed)
  then obtain crd where c: "badge_card el d = Some crd"
    and nm: "querySelector (Cls ''ce-badges'') (card_body crd) = None"
    by (auto simp: blocked_badge_def split: option.splits)
  let ?w = "badge_container (fresh d) bs"
  from c obtain s where cs: "closest s el d = Some crd" by (auto dest: badge_card_closest)
  have body: "card_body crd = d \<or> card_body crd \<in> set (desc d)"
    using card_body_in [of crd] closest_self_or_desc [OF cs] closest_desc [OF cs] by auto
  show ?thesis
  proof (cases "title_of (card_body crd)")
    case None
    with c nm have d': "inject_badge bs el d = put (FirstIn (nid (card_body crd))) ?w d"
      by (simp add: inject_badge_def Let_def title_of_def)
    from body have "nid (card_body crd) \<in> set (ids d)"
      using nid_in_ids [of d] in_doc_fresh(2) [of "card_body crd" d] by auto
    then have "first_child (nid (card_body crd)) (put (FirstIn (nid (card_body crd))) ?w d)
        = Some ?w"
      using badge_container_props(2) by (intro first_child_put fresh_not_in)
    with c None d' show ?thesis by simp
  next
    case (Some titleEl)
    with c nm have d': "inject_badge bs el d = put (After (nid titleEl)) ?w d"
      by (simp add: inject_badge_def Let_def title_of_def)
    from Some have "titleEl \<in> set (desc (card_body crd))"
      by (auto simp: title_of_def first_of_def dest: querySelector_SomeD split: option.splits)
    with body have td: "titleEl \<in> set (desc d)"
      using desc_trans(1) [of "card_body crd" d] by auto
    then have "nid titleEl \<notin> set (ids ?w)"
      using badge_container_props(2) by (intro fresh_not_in in_doc_fresh(2))
    with td have "next_sibling (nid titleEl) (put (After (nid titleEl)) ?w d) = Some ?w"
      by (intro next_sibling_put(1) in_doc_fresh(1))
    with c Some d' show ?thesis by simp
  qed
qed


subsection \<open>One marker under the card after an insertion\<close>



lemma count_simps [simp]:
  "count s [] = 0"
  "count s (x # xs) = (if matches s x then 1 else 0) + count s xs"
  "count s (xs @ ys) = count s xs + count s ys"
  by (simp_all add: count_def)
















section \<open>Where the overlay is inserted\<close>


text \<open>
  C6, as amended.  A step of the offers or the discount script that changes the page has
  found a price element under the card, and the new subtree is the next sibling of that
  element; without a price element under the card both scripts leave the page as it is.
  A step of the badge script that changes the page puts the container directly after the
  title element of the card body, or, when there is none, makes it the first child of the
  card body.  Taking the nodes built by a run of any of the three scripts out again gives
  back the page as it was: no node of the page was removed or moved.
\<close>

theorem overlay_placement:
  "(closest card_sel el d = Some crd \<and> querySelector (Cls ''product-price'') crd = None \<longrightarrow>
      inject_offer tr offers el d = d \<and> inject_discount tr n el d = d)
 \<and> (inject_offer tr offers el d \<noteq> d \<longrightarrow>
      (\<exists>crd priceEl. closest card_sel el d = Some crd
         \<and> querySelector (Cls ''product-price'') crd = Some priceEl
         \<and> next_sibling (nid priceEl) (inject_offer tr offers el d)
             = Some (offer_wrapper tr (fresh d) offers)))
 \<and> (inject_discount tr n el d \<noteq> d \<longrightarrow>
      (\<exists>crd priceEl. closest card_sel el d = Some crd
         \<and> querySelector (Cls ''product-price'') crd = Some priceEl
         \<and> next_sibling (nid priceEl) (inject_discount tr n el d)
             = Some (discount_info tr (fresh d) n)))
 \<and> (inject_badge bs el d \<noteq> d \<longrightarrow>
      (\<exists>crd. badge_card el d = Some crd
         \<and> (case title_of (card_body crd) of
               Some titleEl \<Rightarrow>
                 next_sibling (nid titleEl) (inject_badge bs el d)
                   = Some (badge_container (fresh d) bs)
             | None \<Rightarrow>
                 first_child (nid (card_body crd)) (inject_badge bs el d)
                   = Some (badge_container (fresh d) bs))))
 \<and> prune (fresh d) (injectProductOffers tr offersMessage l d) = d
 \<and> prune (fresh d) (injectConsumerDiscount tr discountsMessage l d) = d
 \<and> prune (fresh d) (injectBadges badgesMessage l d) = d"
  using no_price_no_overlay(1) [of el d crd tr offers]
    no_price_no_overlay(2) [of el d crd tr n]
    offer_placement [of tr offers el d] discount_placement [of tr n el d]
    badge_placement [of bs el d]
  by (simp add: offers_prune discounts_prune badges_prune)

lemma fresh_pages: "fresh page_priced = 6" "fresh page_bare = 5"
  by code_simp+

lemma page_priced_card:
  "closest card_sel 5 page_priced = Some c \<longleftrightarrow>
     c = Node 2 ''div'' [''card''] None []
             [Node 3 ''h4'' [''product-title''] None [] [],
              Node 4 ''div'' [''product-price''] None [] [],
              Node 5 ''button'' [''btn-add-to-cart-list''] (Some ''ITEM-1'') [] []]"
  by (auto simp: page_priced_def closest_def card_sel_def)

theorem overlay_placement_witness:
  "next_sibling 4 (inject_offer id (one_offer ''ITEM-1'') 5 page_priced)
     = Some (offer_wrapper id 6 (one_offer ''ITEM-1''))
 \<and> next_sibling 4 (inject_discount id 15 5 page_priced) = Some (discount_info id 6 15)
 \<and> next_sibling 3 (inject_badge (one_badge ''ITEM-1'') 5 page_priced)
     = Some (badge_container 6 (one_badge ''ITEM-1''))
 \<and> inject_offer id (one_offer ''ITEM-1'') 4 page_bare = page_bare
 \<and> inject_discount id 15 4 page_bare = page_bare
 \<and> first_child 2 (inject_badge (one_badge ''ITEM-1'') 4 page_bare)
     = Some (badge_container 5 (one_badge ''ITEM-1''))
 \<and> prune 6 (injectProductOffers id (Some one_offer) 1 page_priced) = page_priced"
proof -
  note t = overlay_placement [of 5 page_priced _ id "one_offer ''ITEM-1''" 15
      "one_badge ''ITEM-1''" "Some one_offer" 1 None None]
  note u = overlay_placement [of 4 page_bare
      "Node 2 ''div'' [''card''] None []
         [Node 3 ''img'' [] None [] [],
          Node 4 ''button'' [''btn-add-to-cart-list''] (Some ''ITEM-1'') [] []]"
      id "one_offer ''ITEM-1''" 15 "one_badge ''ITEM-1''" None 1 None None]
  have o: "inject_offer id (one_offer ''ITEM-1'') 5 page_priced \<noteq> page_priced"
    by (simp add: inject_offer_def page_priced_def closest_def card_sel_def querySelector_def)
  have dd: "inject_discount id 15 5 page_priced \<noteq> page_priced"
    by (simp add: inject_discount_def page_priced_def closest_def card_sel_def
        querySelector_def)
  have b: "inject_badge (one_badge ''ITEM-1'') 5 page_priced \<noteq> page_priced"
    by (simp add: inject_badge_def page_priced_def badge_card_def closest_def first_of_def
        card_body_def title_of_def title_sel_def querySelector_def Let_def)
  have b': "inject_badge (one_badge ''ITEM-1'') 4 page_bare \<noteq> page_bare"
    by (simp add: inject_badge_def page_bare_def badge_card_def closest_def first_of_def
        card_body_def title_of_def title_sel_def querySelector_def Let_def)
  have q: "querySelector (Cls ''product-price'') c = Some p \<longleftrightarrow>
      p = Node 4 ''div'' [''product-price''] None [] []"
    if "closest card_sel 5 page_priced = Some c" for c p
    using that by (auto simp: page_priced_card querySelector_def)
  from t o have 1: "next_sibling 4 (inject_offer id (one_offer ''ITEM-1'') 5 page_priced)
     = Some (offer_wrapper id 6 (one_offer ''ITEM-1''))"
    by (auto simp: fresh_pages q)
  from t dd have 2: "next_sibling 4 (inject_discount id 15 5 page_priced)
     = Some (discount_info id 6 15)"
    by (auto simp: fresh_pages q)
  have bc: "badge_card 5 page_priced = Some (Node 2 ''div'' [''card''] None []
             [Node 3 ''h4'' [''product-title''] None [] [],
              Node 4 ''div'' [''product-price''] None [] [],
              Node 5 ''button'' [''btn-add-to-cart-list''] (Some ''ITEM-1'') [] []])"
    by (simp add: badge_card_def page_priced_def closest_def first_of_def)
  from t b have 3: "next_sibling 3 (inject_badge (one_badge ''ITEM-1'') 5 page_priced)
     = Some (badge_container 6 (one_badge ''ITEM-1''))"
    by (simp add: fresh_pages bc card_body_def title_of_def querySelector_def first_of_def)
  have cb: "closest card_sel 4 page_bare = Some (Node 2 ''div'' [''card''] None []
         [Node 3 ''img'' [] None [] [],
          Node 4 ''button'' [''btn-add-to-cart-list''] (Some ''ITEM-1'') [] []])"
    by (simp add: page_bare_def closest_def card_sel_def)
  from u cb have 4: "inject_offer id (one_offer ''ITEM-1'') 4 page_bare = page_bare"
    and 5: "inject_discount id 15 4 page_bare = page_bare"
    by (simp_all add: querySelector_def)
  have bc': "badge_card 4 page_bare = Some (Node 2 ''div'' [''card''] None []
         [Node 3 ''img'' [] None [] [],
          Node 4 ''button'' [''btn-add-to-cart-list''] (Some ''ITEM-1'') [] []])"
    by (simp add: badge_card_def page_bare_def closest_def first_of_def)
  from u b' have 6: "first_child 2 (inject_badge (one_badge ''ITEM-1'') 4 page_bare)
     = Some (badge_container 5 (one_badge ''ITEM-1''))"
    by (simp add: fresh_pages bc' card_body_def title_of_def title_sel_def querySelector_def
        first_of_def)
  from t have 7: "prune 6 (injectProductOffers id (Some one_offer) 1 page_priced) = page_priced"
    by (simp add: fresh_pages)
  from 1 2 3 4 5 6 7 show ?thesis by blast
qed

theorem no_anchor_counterexample:
  "injectProductOffers id (Some one_offer) 1 page_bare = page_bare
 \<and> injectConsumerDiscount id (Some (\<lambda>c. 15)) 1 page_bare = page_bare
 \<and> injectBadges (Some one_badge) 1 page_bare =
     Node 0 ''body'' [] None []
       [Node 1 ''div'' [] None []
          [Node 2 ''div'' [''card''] None []
             [Node 5 ''div'' [''ce-badges''] None []
                [Node 6 ''span'' [''ce-badge'', ''ce-badge-new''] None ''New'' []],
              Node 3 ''img'' [] None [] [],
              Node 4 ''button'' [''btn-add-to-cart-list''] (Some ''ITEM-1'') [] []]]]"
  by code_simp


section \<open>Repeated decoration passes\<close>

lemma offer_stable:
  assumes "blocked_offer el d" and "el \<in> set (ids d)"
  shows "blocked_offer el (inject_offer tr offers el' d)"
  using offer_shape [of tr offers el' d] assms offer_pres [of el d] fresh_gt [of el d]
  by auto

lemma discount_stable:
  assumes "blocked_discount el d" and "el \<in> set (ids d)"
  shows "blocked_discount el (inject_discount tr n el' d)"
  using discount_shape [of tr n el' d] assms discount_pres [of el d] fresh_gt [of el d]
  by auto

lemma badge_stable:
  assumes "blocked_badge el d" and "el \<in> set (ids d)"
  shows "blocked_badge el (inject_badge bs el' d)"
  using badge_shape [of bs el' d] assms badge_pres [of el d] fresh_gt [of el d]
  by auto










lemma page_two_first_step:
  "inject_offer id (one_offer ''ITEM-1'') 4 page_two =
     Node 0 ''body'' [] None []
       [Node 1 ''div'' [] None []
          [Node 2 ''div'' [''card''] None []
             [Node 3 ''div'' [''product-price''] None [] [],
              offer_wrapper id 9 (one_offer ''ITEM-1''),
              Node 4 ''a'' [] (Some ''ITEM-1'') [] [],
              Node 5 ''button'' [''btn-add-to-cart-list''] (Some ''ITEM-1'') [] []],
           Node 6 ''div'' [''card''] None []
             [Node 7 ''div'' [''product-price''] None [] [],
              Node 8 ''button'' [''btn-add-to-cart-list''] (Some ''ITEM-1'') [] []]]]"
  by code_simp


end
